theory Spec2Isabelle
  imports Complex_Main "HOL-Library.AList" "HOL-Library.Sublist" "HOL-Library.State_Monad"
begin

section \<open>Strings\<close>

text \<open>
  JavaScript strings are modelled as \<^typ>\<open>string\<close> restricted to ASCII, and JavaScript
  numbers as \<^typ>\<open>real\<close> (finite values, no rounding).  On ASCII text
  \<^verbatim>\<open>String.prototype.trim\<close> strips the characters 9 to 13 and 32 from both ends and
  \<^verbatim>\<open>toLowerCase\<close> maps \<^verbatim>\<open>A-Z\<close> to \<^verbatim>\<open>a-z\<close>.
\<close>

definition isSpace :: "char \<Rightarrow> bool" where
  "isSpace c = (let n = (of_char c :: nat) in (9 \<le> n \<and> n \<le> 13) \<or> n = 32)"

definition trim :: "string \<Rightarrow> string" where
  "trim s = rev (dropWhile isSpace (rev (dropWhile isSpace s)))"

definition toLowerChar :: "char \<Rightarrow> char" where
  "toLowerChar c = (let n = (of_char c :: nat) in if 65 \<le> n \<and> n \<le> 90 then char_of (n + 32) else c)"

definition toLowerCase :: "string \<Rightarrow> string" where
  "toLowerCase s = map toLowerChar s"

text \<open>\<^verbatim>\<open>function norm(s) { return String(s ?? "").trim().toLowerCase(); }\<close>\<close>

definition norm_str :: "string \<Rightarrow> string" where
  "norm_str s = toLowerCase (trim s)"

text \<open>\<^verbatim>\<open>s.includes(p)\<close>: \<open>p\<close> occurs in \<open>s\<close> as a contiguous block.\<close>

fun str_includes :: "string \<Rightarrow> string \<Rightarrow> bool" where
  "str_includes [] p = (p = [])"
| "str_includes (c # cs) p = (take (length p) (c # cs) = p \<or> str_includes cs p)"

section \<open>Scoring model\<close>

definition FALLBACK_SCORE :: real where
  "FALLBACK_SCORE = 2"

text \<open>
  \<^verbatim>\<open>const s = Math.max(0, Math.min(5, Number(speedScore) || 0)); return 0.6 + 0.4 * (s / 5);\<close>
\<close>

definition quickMultiplier :: "real \<Rightarrow> real" where
  "quickMultiplier speedScore =
     (let s = max 0 (min 5 (if speedScore = 0 then 0 else speedScore))
      in 0.6 + 0.4 * (s / 5))"

text \<open>
  The rule chain of the source, in its order.  Every matched rule returns at once; only
  the default reaches the endless penalty.
\<close>

definition quickMissionMultiplier :: "string \<Rightarrow> bool \<Rightarrow> real" where
  "quickMissionMultiplier missionType isEndless =
     (let mt = norm_str missionType in
      if str_includes mt ''capture'' then 1.40
      else if str_includes mt ''exterminate'' then 1.30
      else if str_includes mt ''rescue'' then 1.22
      else if str_includes mt ''sabotage'' then 1.18
      else if str_includes mt ''spy'' then 1.10
      else if str_includes mt ''disruption'' then 1.08
      else if str_includes mt ''activity'' then 1.20
      else if str_includes mt ''survival'' then 0.90
      else if str_includes mt ''defense'' then 0.86
      else if str_includes mt ''interception'' then 0.85
      else if str_includes mt ''excavation'' then 0.92
      else if str_includes mt ''mobile defense'' then 0.82
      else (let mult = 1.0 in if isEndless then mult * 0.92 else mult))"

section \<open>Arrays, sets and maps\<close>

text \<open>
  \<^verbatim>\<open>Array.prototype.sort(cmp)\<close> is a stable sort; for a comparator that orders its
  arguments consistently it is insertion of each element in front of the first later
  element that does not have to precede it.
\<close>

fun insort_cmp :: "('a \<Rightarrow> 'a \<Rightarrow> real) \<Rightarrow> 'a \<Rightarrow> 'a list \<Rightarrow> 'a list" where
  "insort_cmp cmp x [] = [x]"
| "insort_cmp cmp x (y # ys) = (if cmp x y \<le> 0 then x # y # ys else y # insort_cmp cmp x ys)"

definition sort_cmp :: "('a \<Rightarrow> 'a \<Rightarrow> real) \<Rightarrow> 'a list \<Rightarrow> 'a list" where
  "sort_cmp cmp xs = foldr (insort_cmp cmp) xs []"

text \<open>
  A \<^verbatim>\<open>Set\<close> and the keys of a \<^verbatim>\<open>Map\<close> iterate in insertion order: a \<^verbatim>\<open>Set\<close> is a
  list without repetition, a \<^verbatim>\<open>Map\<close> an association list (\<^const>\<open>map_of\<close> is
  \<^verbatim>\<open>get\<close>, \<^const>\<open>AList.update\<close> is \<^verbatim>\<open>set\<close>).
\<close>

definition set_add :: "'a \<Rightarrow> 'a list \<Rightarrow> 'a list" where
  "set_add x s = (if x \<in> set s then s else s @ [x])"

definition set_delete :: "'a \<Rightarrow> 'a list \<Rightarrow> 'a list" where
  "set_delete x s = filter (\<lambda>y. y \<noteq> x) s"

definition new_Set :: "'a list \<Rightarrow> 'a list" where
  "new_Set xs = fold set_add xs []"

definition new_Map :: "('k \<times> 'v) list \<Rightarrow> ('k \<times> 'v) list" where
  "new_Map kvs = fold (\<lambda>kv m. AList.update (fst kv) (snd kv) m) kvs []"

section \<open>Catalog index\<close>

text \<open>
  Record fields carry a prefix naming their record (\<open>x_\<close> an explicit drop record,
  \<open>m_\<close> node metadata, \<open>row_\<close> a master row, and so on), since the source reuses
  field names across objects and as local variables.
\<close>

record explicit_rec =
  x_dropScore :: real
  x_speedScore :: real
  x_isEndless :: bool

record node_meta =
  m_node :: string
  m_planet :: string
  m_planetKey :: string
  m_missionType :: string
  m_isEndless :: bool
  m_speedScore :: real

record master_row =
  row_resource :: string
  row_node :: string
  row_planet :: string
  row_missionType :: string
  row_isEndless :: bool
  row_speedScore :: real
  row_dropScore :: real
  row_rKey :: string
  row_nKey :: string
  row_pKey :: string

text \<open>The module's global variables.\<close>

record catalog =
  MASTER_ROWS :: "master_row list"
  PLANET_DROPS :: "(string \<times> string list) list"
  RESOURCES :: "string list"
  NODE_META :: "(string \<times> node_meta) list"
  EXPLICIT :: "(string \<times> (string \<times> explicit_rec) list) list"

text \<open>
  A parsed CSV row is an object from header names to cell strings.
  \<^verbatim>\<open>row.a ?? row.b ?? ""\<close> reads a column under either spelling.
\<close>

type_synonym raw_row = "string \<rightharpoonup> string"

definition col :: "raw_row \<Rightarrow> string \<Rightarrow> string \<Rightarrow> string" where
  "col row a b = (case row a of Some v \<Rightarrow> v | None \<Rightarrow> (case row b of Some v \<Rightarrow> v | None \<Rightarrow> []))"

text \<open>
  \<^verbatim>\<open>Number(row.a ?? row.b ?? 0) || 0\<close>.  The built-in conversion of a cell to a number
  (with \<^verbatim>\<open>NaN\<close> replaced by 0) is the parameter \<open>toNumber\<close>.
\<close>

definition num_col :: "(string \<Rightarrow> real) \<Rightarrow> raw_row \<Rightarrow> string \<Rightarrow> string \<Rightarrow> real" where
  "num_col toNumber row a b =
     (case row a of Some v \<Rightarrow> toNumber v | None \<Rightarrow> (case row b of Some v \<Rightarrow> toNumber v | None \<Rightarrow> 0))"

text \<open>The body of \<^verbatim>\<open>for (const row of master)\<close> in \<^verbatim>\<open>loadData\<close>.\<close>

definition masterRowStep :: "(string \<Rightarrow> real) \<Rightarrow> raw_row \<Rightarrow> catalog \<Rightarrow> catalog" where
  "masterRowStep toNumber row st =
     (let resource = trim (col row ''resource'' ''Resource'');
          node = trim (col row ''node'' ''Node'');
          planetName = trim (col row ''planet'' ''Planet'');
          missionType = trim (col row ''missionType'' ''MissionType'');
          isEndless = (toLowerCase (trim (col row ''isEndless'' ''IsEndless'')) = ''true'');
          speedScore = num_col toNumber row ''speedScore'' ''SpeedScore'';
          dropScore = num_col toNumber row ''dropScore'' ''DropScore''
      in if resource = [] \<or> node = [] then st
         else
           (let rKey = norm_str resource;
                nKey = norm_str node;
                st1 = st\<lparr>MASTER_ROWS := MASTER_ROWS st @
                        [\<lparr>row_resource = resource, row_node = node, row_planet = planetName,
                          row_missionType = missionType, row_isEndless = isEndless,
                          row_speedScore = speedScore, row_dropScore = dropScore,
                          row_rKey = rKey, row_nKey = nKey, row_pKey = norm_str planetName\<rparr>]\<rparr>;
                st2 = (if map_of (NODE_META st1) nKey = None
                       then st1\<lparr>NODE_META := AList.update nKey
                              \<lparr>m_node = node, m_planet = planetName, m_planetKey = norm_str planetName,
                               m_missionType = (if missionType = [] then ''Other'' else missionType),
                               m_isEndless = isEndless, m_speedScore = speedScore\<rparr> (NODE_META st1)\<rparr>
                       else st1);
                st3 = (if map_of (EXPLICIT st2) rKey = None
                       then st2\<lparr>EXPLICIT := AList.update rKey [] (EXPLICIT st2)\<rparr>
                       else st2)
            in st3\<lparr>EXPLICIT := AList.map_entry rKey
                   (AList.update nKey \<lparr>x_dropScore = dropScore, x_speedScore = speedScore,
                                       x_isEndless = isEndless\<rparr>) (EXPLICIT st3)\<rparr>))"

text \<open>\<^verbatim>\<open>uniqueResources\<close>: the first display name of every resource key.\<close>

definition uniqueResources :: "master_row list \<Rightarrow> (string \<times> string) list" where
  "uniqueResources rs =
     fold (\<lambda>r m. if map_of m (row_rKey r) = None then AList.update (row_rKey r) (row_resource r) m else m) rs []"

text \<open>\<^verbatim>\<open>s.split(",")\<close>\<close>

fun split_comma :: "string \<Rightarrow> string list" where
  "split_comma [] = [[]]"
| "split_comma (c # cs) =
     (if c = CHR '','' then [] # split_comma cs
      else (case split_comma cs of [] \<Rightarrow> [[c]] | w # ws \<Rightarrow> (c # w) # ws))"

text \<open>The body of \<^verbatim>\<open>for (const row of planet)\<close> in \<^verbatim>\<open>loadData\<close>.\<close>

definition planetRowStep :: "raw_row \<Rightarrow> (string \<times> string list) list \<Rightarrow> (string \<times> string list) list" where
  "planetRowStep row pd =
     (let planetName = trim (col row ''planet'' ''Planet'');
          resources = trim (col row ''resources'' ''Resources'')
      in if planetName = [] then pd
         else
           (let pKey = norm_str planetName;
                list = filter (\<lambda>s. s \<noteq> []) (map trim (split_comma resources))
            in fold (\<lambda>r pd.
                  (let rKey = norm_str r;
                       pd1 = (if map_of pd rKey = None then AList.update rKey [] pd else pd)
                   in AList.map_entry rKey (set_add pKey) pd1)) list pd))"

text \<open>
  A fetched file: whether the response was \<^verbatim>\<open>ok\<close>, and its text as parsed into rows.
\<close>

record fetch_response =
  ok :: bool
  rows :: "raw_row list"

datatype load_error = Error string

text \<open>
  \<^verbatim>\<open>loadData\<close>: throws when a file could not be fetched, otherwise reassigns every
  index.  \<open>localeCompare\<close> is the built-in string comparison.
\<close>

definition loadData ::
  "(string \<Rightarrow> real) \<Rightarrow> (string \<Rightarrow> string \<Rightarrow> real) \<Rightarrow> fetch_response \<Rightarrow> fetch_response \<Rightarrow> catalog
     \<Rightarrow> load_error + catalog" where
  "loadData toNumber localeCompare masterRes planetRes st =
     (if \<not> ok masterRes
      then Inl (Error ''Could not load ResourcesMaster.csv (put it next to index.html).'')
      else if \<not> ok planetRes
      then Inl (Error ''Could not load ResourcesPlanet.csv (put it next to index.html).'')
      else
        (let st1 = fold (masterRowStep toNumber) (rows masterRes)
                     (st\<lparr>MASTER_ROWS := [], NODE_META := [], EXPLICIT := []\<rparr>);
             st2 = st1\<lparr>RESOURCES := sort_cmp localeCompare (map snd (uniqueResources (MASTER_ROWS st1)))\<rparr>
         in Inr (st2\<lparr>PLANET_DROPS := fold planetRowStep (rows planetRes) []\<rparr>)))"

section \<open>Scoring helpers\<close>

definition getExplicitScore :: "catalog \<Rightarrow> string \<Rightarrow> string \<Rightarrow> explicit_rec option" where
  "getExplicitScore c rKey nKey =
     (case map_of (EXPLICIT c) rKey of None \<Rightarrow> None | Some m \<Rightarrow> map_of m nKey)"

definition planetHasResourceFallback :: "catalog \<Rightarrow> string \<Rightarrow> string \<Rightarrow> bool" where
  "planetHasResourceFallback c rKey planetKey =
     (case map_of (PLANET_DROPS c) rKey of None \<Rightarrow> False | Some s \<Rightarrow> planetKey \<in> set s)"

text \<open>
  \<^verbatim>\<open>computeEffScore(scoreObj, runMode, meta)\<close>; \<^verbatim>\<open>meta?.missionType || ""\<close> and
  \<^verbatim>\<open>meta?.isEndless\<close> read a possibly absent \<open>meta\<close>.  On a number that is not
  \<^verbatim>\<open>NaN\<close>, \<^verbatim>\<open>Number(v) || 0\<close> is \<open>v\<close>.
\<close>

definition computeEffScore :: "explicit_rec \<Rightarrow> string \<Rightarrow> node_meta option \<Rightarrow> real" where
  "computeEffScore scoreObj runMode meta =
     (let dropScore = x_dropScore scoreObj;
          speedScore = x_speedScore scoreObj
      in if runMode = ''quick''
         then (let qm = quickMultiplier speedScore;
                   mm = quickMissionMultiplier
                          (case meta of None \<Rightarrow> [] | Some m \<Rightarrow> m_missionType m)
                          (case meta of None \<Rightarrow> False | Some m \<Rightarrow> m_isEndless m)
               in dropScore * qm * mm)
         else dropScore)"

definition nodeEligibleByRunMode :: "node_meta \<Rightarrow> string \<Rightarrow> bool" where
  "nodeEligibleByRunMode nMeta runMode = (if runMode = ''endless'' then m_isEndless nMeta else True)"

section \<open>Close-score grouping\<close>

record scored =
  nodeKey :: string
  score :: real

text \<open>The loop of \<^verbatim>\<open>pickTopOptions\<close>, with \<open>out\<close> the list built so far.\<close>

fun pickLoop :: "real \<Rightarrow> nat \<Rightarrow> 'a scored_scheme list \<Rightarrow> 'a scored_scheme list \<Rightarrow> 'a scored_scheme list" where
  "pickLoop best maxOptions [] out = out"
| "pickLoop best maxOptions (it # rest) out =
     (if length out \<ge> maxOptions then out
      else if score it \<ge> best * 0.9 then pickLoop best maxOptions rest (out @ [it])
      else pickLoop best maxOptions rest out)"

definition pickTopOptions :: "'a scored_scheme list \<Rightarrow> nat \<Rightarrow> 'a scored_scheme list" where
  "pickTopOptions scoredList maxOptions =
     (case scoredList of [] \<Rightarrow> []
      | first # _ \<Rightarrow> pickLoop (score first) maxOptions scoredList [])"

text \<open>\<^verbatim>\<open>scored.sort((a, b) => b.score - a.score)\<close>\<close>

definition sortByScoreDesc :: "'a scored_scheme list \<Rightarrow> 'a scored_scheme list" where
  "sortByScoreDesc xs = sort_cmp (\<lambda>a b. score b - score a) xs"

section \<open>Planner: maximize efficiency\<close>

record eff_option = scored +
  e_meta :: "node_meta option"

record eff_result =
  r_resource :: string
  r_options :: "eff_option list"
  r_note :: "string option"

text \<open>
  The body of \<^verbatim>\<open>for (const [nKey, s] of explicitMap.entries())\<close>, on the list
  \<open>scored\<close>: an entry \<open>e = (nKey, s)\<close> without metadata or not eligible is skipped,
  any other is scored and pushed.
\<close>

definition scoreExplicitStep :: "catalog \<Rightarrow> string \<Rightarrow> string \<times> explicit_rec \<Rightarrow> scored list \<Rightarrow> scored list" where
  "scoreExplicitStep c runMode e scored =
     (case map_of (NODE_META c) (fst e) of
        None \<Rightarrow> scored
      | Some meta \<Rightarrow>
          if \<not> nodeEligibleByRunMode meta runMode then scored
          else (let eff = computeEffScore (snd e) runMode (Some meta)
                in scored @ [\<lparr>nodeKey = fst e, score = eff\<rparr>]))"

text \<open>The body of \<^verbatim>\<open>for (const rName of selectedResources)\<close>: the entry pushed for \<open>rName\<close>.\<close>

definition efficiencyEntry :: "catalog \<Rightarrow> string \<Rightarrow> string \<Rightarrow> eff_result" where
  "efficiencyEntry c runMode rName =
     (let rKey = norm_str rName;
          explicitMap = map_of (EXPLICIT c) rKey
      in if explicitMap = None \<or> length (the explicitMap) = 0
         then \<lparr>r_resource = rName, r_options = [],
               r_note = Some ''No explicit data for this resource.''\<rparr>
         else
           (let scored = sortByScoreDesc (fold (scoreExplicitStep c runMode) (the explicitMap) []);
                options = map (\<lambda>opt. \<lparr>nodeKey = nodeKey opt, score = score opt,
                                        e_meta = map_of (NODE_META c) (nodeKey opt)\<rparr>)
                              (pickTopOptions scored 3)
            in \<lparr>r_resource = rName, r_options = options, r_note = None\<rparr>))"

definition planMaximizeEfficiency :: "catalog \<Rightarrow> string list \<Rightarrow> string \<Rightarrow> eff_result list" where
  "planMaximizeEfficiency c selectedResources runMode =
     map (efficiencyEntry c runMode) selectedResources"

section \<open>Planner: minimize stops\<close>

record covered_item =
  c_resource :: string
  c_via :: string
  c_score :: real

record stop_option = scored +
  o_meta :: node_meta
  o_covered :: "covered_item list"

record route_step =
  s_options :: "stop_option list"

record stops_plan =
  p_route :: "route_step list"
  p_missing :: "string list"

definition maxStops :: nat where
  "maxStops = 6"

text \<open>\<^verbatim>\<open>rDisplay.get(rKey) || rKey\<close>\<close>

definition displayName :: "(string \<times> string) list \<Rightarrow> string \<Rightarrow> string" where
  "displayName rDisplay rKey =
     (case map_of rDisplay rKey of None \<Rightarrow> rKey | Some r \<Rightarrow> if r = [] then rKey else r)"

text \<open>
  The body of \<^verbatim>\<open>for (const rKey of remaining)\<close>, on the pair of \<open>total\<close> and
  \<open>covered\<close>: an explicit record decides alone (the \<^verbatim>\<open>continue\<close>), the planet
  fallback is looked at only without one.
\<close>

definition coverStep ::
  "catalog \<Rightarrow> string \<Rightarrow> (string \<times> string) list \<Rightarrow> string \<Rightarrow> node_meta \<Rightarrow> string
     \<Rightarrow> real \<times> covered_item list \<Rightarrow> real \<times> covered_item list" where
  "coverStep c runMode rDisplay nKey meta rKey acc =
     (let total = fst acc; covered = snd acc
      in case getExplicitScore c rKey nKey of
           Some explicit \<Rightarrow>
             (let eff = computeEffScore explicit runMode (Some meta)
              in if eff > 0
                 then (total + eff,
                       covered @ [\<lparr>c_resource = displayName rDisplay rKey,
                                   c_via = ''explicit'', c_score = eff\<rparr>])
                 else (total, covered))
         | None \<Rightarrow>
             if planetHasResourceFallback c rKey (m_planetKey meta)
             then (let fb = FALLBACK_SCORE;
                       fb = (if runMode = ''quick''
                             then fb * quickMultiplier (m_speedScore meta)
                                     * quickMissionMultiplier (m_missionType meta) (m_isEndless meta)
                             else fb)
                   in (total + fb,
                       covered @ [\<lparr>c_resource = displayName rDisplay rKey,
                                   c_via = ''planet'', c_score = fb\<rparr>]))
             else (total, covered))"

text \<open>The body of \<^verbatim>\<open>for (const nKey of candidates)\<close>, on the list \<open>scored\<close>.\<close>

definition scoreCandidate ::
  "catalog \<Rightarrow> string \<Rightarrow> (string \<times> string) list \<Rightarrow> string list \<Rightarrow> string
     \<Rightarrow> stop_option list \<Rightarrow> stop_option list" where
  "scoreCandidate c runMode rDisplay remaining nKey scored =
     (case map_of (NODE_META c) nKey of
        None \<Rightarrow> scored
      | Some meta \<Rightarrow>
          (let acc = fold (coverStep c runMode rDisplay nKey meta) remaining (0, []);
               total = fst acc; covered = snd acc
           in if length covered = 0 then scored
              else scored @ [\<lparr>nodeKey = nKey, score = total, o_meta = meta, o_covered = covered\<rparr>]))"

text \<open>
  The \<^verbatim>\<open>while\<close> loop on \<open>remaining\<close> and \<open>route\<close>; it stops when nothing remains,
  at \<open>maxStops\<close> steps, or at the \<^verbatim>\<open>break\<close> when no candidate covers anything.
\<close>

function stopsLoop ::
  "catalog \<Rightarrow> string \<Rightarrow> (string \<times> string) list \<Rightarrow> string list \<Rightarrow> string list \<Rightarrow> route_step list
     \<Rightarrow> string list \<times> route_step list" where
  "stopsLoop c runMode rDisplay candidates remaining route =
     (if length remaining > 0 \<and> length route < maxStops
      then
        (let scored = sortByScoreDesc
                        (fold (scoreCandidate c runMode rDisplay remaining) candidates []);
             top = pickTopOptions scored 3
         in case top of
              [] \<Rightarrow> (remaining, route)
            | best # _ \<Rightarrow>
                stopsLoop c runMode rDisplay candidates
                  (fold (\<lambda>ci rem. set_delete (norm_str (c_resource ci)) rem) (o_covered best) remaining)
                  (route @ [\<lparr>s_options = map (\<lambda>opt. \<lparr>nodeKey = nodeKey opt, score = score opt,
                                                         o_meta = o_meta opt, o_covered = o_covered opt\<rparr>) top\<rparr>]))
      else (remaining, route))"
  by pat_completeness auto
termination
  by (relation "measure (\<lambda>(c, runMode, rDisplay, candidates, remaining, route). maxStops - length route)") auto

definition planMinimizeStops :: "catalog \<Rightarrow> string list \<Rightarrow> string \<Rightarrow> stops_plan" where
  "planMinimizeStops c selectedResources runMode =
     (let remaining = new_Set (map norm_str selectedResources);
          rDisplay = new_Map (map (\<lambda>r. (norm_str r, r)) selectedResources);
          candidateNodes =
            fold (\<lambda>rKey cn. case map_of (EXPLICIT c) rKey of
                               None \<Rightarrow> cn
                             | Some m \<Rightarrow> fold set_add (map fst m) cn) remaining [];
          candidates =
            filter (\<lambda>nKey. case map_of (NODE_META c) nKey of
                              None \<Rightarrow> False
                            | Some meta \<Rightarrow> nodeEligibleByRunMode meta runMode) candidateNodes;
          fin = stopsLoop c runMode rDisplay candidates remaining []
      in \<lparr>p_route = snd fin, p_missing = map (displayName rDisplay) (fst fin)\<rparr>)"

section \<open>The planners as programs on the global state\<close>

text \<open>
  In the source the planners take only \<open>selectedResources\<close> and \<open>runMode\<close> and reach the
  indexes through the global variables.  Here they are programs in the state monad over
  \<^typ>\<open>catalog\<close>: each access to a global is a read of the state, and a program could
  as well write it.  Everything the planners mutate (\<open>results\<close>, \<open>scored\<close>, \<open>out\<close>,
  \<open>remaining\<close>, \<open>route\<close>, \<open>covered\<close>) is an object they allocated themselves.
\<close>

definition EXPLICIT_get :: "string \<Rightarrow> (catalog, (string \<times> explicit_rec) list option) state" where
  "EXPLICIT_get rKey = State_Monad.bind State_Monad.get (\<lambda>st. State_Monad.return (map_of (EXPLICIT st) rKey))"

definition NODE_META_get :: "string \<Rightarrow> (catalog, node_meta option) state" where
  "NODE_META_get nKey = State_Monad.bind State_Monad.get (\<lambda>st. State_Monad.return (map_of (NODE_META st) nKey))"

definition PLANET_DROPS_get :: "string \<Rightarrow> (catalog, string list option) state" where
  "PLANET_DROPS_get rKey = State_Monad.bind State_Monad.get (\<lambda>st. State_Monad.return (map_of (PLANET_DROPS st) rKey))"

primrec fold_st :: "('a \<Rightarrow> 'b \<Rightarrow> ('s, 'b) state) \<Rightarrow> 'a list \<Rightarrow> 'b \<Rightarrow> ('s, 'b) state" where
  "fold_st f [] acc = State_Monad.return acc"
| "fold_st f (x # xs) acc = State_Monad.bind (f x acc) (fold_st f xs)"

definition getExplicitScore_st :: "string \<Rightarrow> string \<Rightarrow> (catalog, explicit_rec option) state" where
  "getExplicitScore_st rKey nKey =
     do { emap \<leftarrow> EXPLICIT_get rKey;
          State_Monad.return (case emap of None \<Rightarrow> None | Some m \<Rightarrow> map_of m nKey) }"

definition planetHasResourceFallback_st :: "string \<Rightarrow> string \<Rightarrow> (catalog, bool) state" where
  "planetHasResourceFallback_st rKey planetKey =
     do { s \<leftarrow> PLANET_DROPS_get rKey;
          State_Monad.return (case s of None \<Rightarrow> False | Some s \<Rightarrow> planetKey \<in> set s) }"

definition scoreExplicitStep_st ::
  "string \<Rightarrow> string \<times> explicit_rec \<Rightarrow> scored list \<Rightarrow> (catalog, scored list) state" where
  "scoreExplicitStep_st runMode e scored =
     do { meta \<leftarrow> NODE_META_get (fst e);
          State_Monad.return
            (case meta of
               None \<Rightarrow> scored
             | Some meta \<Rightarrow>
                 if \<not> nodeEligibleByRunMode meta runMode then scored
                 else (let eff = computeEffScore (snd e) runMode (Some meta)
                       in scored @ [\<lparr>nodeKey = fst e, score = eff\<rparr>])) }"

definition efficiencyEntry_st :: "string \<Rightarrow> string \<Rightarrow> (catalog, eff_result) state" where
  "efficiencyEntry_st runMode rName =
     do { explicitMap \<leftarrow> EXPLICIT_get (norm_str rName);
          if explicitMap = None \<or> length (the explicitMap) = 0
          then State_Monad.return \<lparr>r_resource = rName, r_options = [],
                                   r_note = Some ''No explicit data for this resource.''\<rparr>
          else do {
            scored \<leftarrow> fold_st (scoreExplicitStep_st runMode) (the explicitMap) [];
            options \<leftarrow> State_Monad.traverse_list
                        (\<lambda>opt. do { meta \<leftarrow> NODE_META_get (nodeKey opt);
                                    State_Monad.return \<lparr>nodeKey = nodeKey opt, score = score opt, e_meta = meta\<rparr> })
                        (pickTopOptions (sortByScoreDesc scored) 3);
            State_Monad.return \<lparr>r_resource = rName, r_options = options, r_note = None\<rparr> } }"

definition planMaximizeEfficiency_st :: "string list \<Rightarrow> string \<Rightarrow> (catalog, eff_result list) state" where
  "planMaximizeEfficiency_st selectedResources runMode =
     State_Monad.traverse_list (efficiencyEntry_st runMode) selectedResources"

definition coverStep_st ::
  "string \<Rightarrow> (string \<times> string) list \<Rightarrow> string \<Rightarrow> node_meta \<Rightarrow> string
     \<Rightarrow> real \<times> covered_item list \<Rightarrow> (catalog, real \<times> covered_item list) state" where
  "coverStep_st runMode rDisplay nKey meta rKey acc =
     do { explicit \<leftarrow> getExplicitScore_st rKey nKey;
          case explicit of
            Some explicit \<Rightarrow>
              (let eff = computeEffScore explicit runMode (Some meta)
               in State_Monad.return
                    (if eff > 0
                     then (fst acc + eff,
                           snd acc @ [\<lparr>c_resource = displayName rDisplay rKey,
                                       c_via = ''explicit'', c_score = eff\<rparr>])
                     else acc))
          | None \<Rightarrow>
              do { fallback \<leftarrow> planetHasResourceFallback_st rKey (m_planetKey meta);
                   State_Monad.return
                     (if fallback
                      then (let fb = FALLBACK_SCORE;
                                fb = (if runMode = ''quick''
                                      then fb * quickMultiplier (m_speedScore meta)
                                              * quickMissionMultiplier (m_missionType meta) (m_isEndless meta)
                                      else fb)
                            in (fst acc + fb,
                                snd acc @ [\<lparr>c_resource = displayName rDisplay rKey,
                                            c_via = ''planet'', c_score = fb\<rparr>]))
                      else acc) } }"

definition scoreCandidate_st ::
  "string \<Rightarrow> (string \<times> string) list \<Rightarrow> string list \<Rightarrow> string
     \<Rightarrow> stop_option list \<Rightarrow> (catalog, stop_option list) state" where
  "scoreCandidate_st runMode rDisplay remaining nKey scored =
     do { meta \<leftarrow> NODE_META_get nKey;
          case meta of
            None \<Rightarrow> State_Monad.return scored
          | Some meta \<Rightarrow>
              do { acc \<leftarrow> fold_st (coverStep_st runMode rDisplay nKey meta) remaining (0, []);
                   State_Monad.return
                     (if length (snd acc) = 0 then scored
                      else scored @ [\<lparr>nodeKey = nKey, score = fst acc,
                                       o_meta = meta, o_covered = snd acc\<rparr>]) } }"

function stopsLoop_st ::
  "string \<Rightarrow> (string \<times> string) list \<Rightarrow> string list \<Rightarrow> string list \<Rightarrow> route_step list
     \<Rightarrow> (catalog, string list \<times> route_step list) state" where
  "stopsLoop_st runMode rDisplay candidates remaining route =
     (if length remaining > 0 \<and> length route < maxStops
      then
        do { scored \<leftarrow> fold_st (scoreCandidate_st runMode rDisplay remaining) candidates [];
             case pickTopOptions (sortByScoreDesc scored) 3 of
               [] \<Rightarrow> State_Monad.return (remaining, route)
             | best # rest \<Rightarrow>
                 stopsLoop_st runMode rDisplay candidates
                   (fold (\<lambda>ci rem. set_delete (norm_str (c_resource ci)) rem) (o_covered best) remaining)
                   (route @ [\<lparr>s_options = map (\<lambda>opt. \<lparr>nodeKey = nodeKey opt, score = score opt,
                                                          o_meta = o_meta opt, o_covered = o_covered opt\<rparr>)
                                                (best # rest)\<rparr>]) }
      else State_Monad.return (remaining, route))"
  by pat_completeness auto
termination
  by (relation "measure (\<lambda>(runMode, rDisplay, candidates, remaining, route). maxStops - length route)") auto

definition candidateNodesStep_st :: "string \<Rightarrow> string list \<Rightarrow> (catalog, string list) state" where
  "candidateNodesStep_st rKey cn =
     do { emap \<leftarrow> EXPLICIT_get rKey;
          State_Monad.return (case emap of None \<Rightarrow> cn | Some m \<Rightarrow> fold set_add (map fst m) cn) }"

definition candidateFilterStep_st :: "string \<Rightarrow> string \<Rightarrow> string list \<Rightarrow> (catalog, string list) state" where
  "candidateFilterStep_st runMode nKey kept =
     do { meta \<leftarrow> NODE_META_get nKey;
          State_Monad.return
            (case meta of
               None \<Rightarrow> kept
             | Some meta \<Rightarrow> if nodeEligibleByRunMode meta runMode then kept @ [nKey] else kept) }"

definition planMinimizeStops_st :: "string list \<Rightarrow> string \<Rightarrow> (catalog, stops_plan) state" where
  "planMinimizeStops_st selectedResources runMode =
     (let remaining = new_Set (map norm_str selectedResources);
          rDisplay = new_Map (map (\<lambda>r. (norm_str r, r)) selectedResources)
      in do { candidateNodes \<leftarrow> fold_st candidateNodesStep_st remaining [];
              candidates \<leftarrow> fold_st (candidateFilterStep_st runMode) candidateNodes [];
              fin \<leftarrow> stopsLoop_st runMode rDisplay candidates remaining [];
              State_Monad.return \<lparr>p_route = snd fin, p_missing = map (displayName rDisplay) (fst fin)\<rparr> })"

section \<open>An example catalog\<close>

text \<open>
  Four drop rows and one planet row, and the catalog that \<open>loadData\<close> builds from them.
  Two nodes on Earth: N1 is an endless survival node with explicit records for plastids
  (drop score 5) and rubedo (drop score 0); N2 is a capture node with explicit records for
  rubedo (4) and ferrite (3).  Earth base-drops plastids and rubedo.
\<close>

abbreviation example_master :: fetch_response where
  "example_master \<equiv>
     \<lparr>ok = True, rows =
        [[''resource'' \<mapsto> ''Rubedo'', ''node'' \<mapsto> ''N2'', ''planet'' \<mapsto> ''Earth'',
          ''missionType'' \<mapsto> ''Capture'', ''isEndless'' \<mapsto> ''false'',
          ''speedScore'' \<mapsto> ''5'', ''dropScore'' \<mapsto> ''4''],
         [''resource'' \<mapsto> ''Ferrite'', ''node'' \<mapsto> ''N2'', ''planet'' \<mapsto> ''Earth'',
          ''missionType'' \<mapsto> ''Capture'', ''isEndless'' \<mapsto> ''false'',
          ''speedScore'' \<mapsto> ''5'', ''dropScore'' \<mapsto> ''3''],
         [''resource'' \<mapsto> ''Plastids'', ''node'' \<mapsto> ''N1'', ''planet'' \<mapsto> ''Earth'',
          ''missionType'' \<mapsto> ''Survival'', ''isEndless'' \<mapsto> ''true'',
          ''speedScore'' \<mapsto> ''3'', ''dropScore'' \<mapsto> ''5''],
         [''resource'' \<mapsto> ''Rubedo'', ''node'' \<mapsto> ''N1'', ''planet'' \<mapsto> ''Earth'',
          ''missionType'' \<mapsto> ''Survival'', ''isEndless'' \<mapsto> ''true'',
          ''speedScore'' \<mapsto> ''3'', ''dropScore'' \<mapsto> ''0'']]\<rparr>"

abbreviation example_planet :: fetch_response where
  "example_planet \<equiv>
     \<lparr>ok = True, rows = [[''planet'' \<mapsto> ''Earth'', ''resources'' \<mapsto> ''Plastids, Rubedo'']]\<rparr>"

abbreviation example_N1 :: node_meta where
  "example_N1 \<equiv> \<lparr>m_node = ''N1'', m_planet = ''Earth'', m_planetKey = ''earth'',
                   m_missionType = ''Survival'', m_isEndless = True, m_speedScore = 3\<rparr>"

abbreviation example_N2 :: node_meta where
  "example_N2 \<equiv> \<lparr>m_node = ''N2'', m_planet = ''Earth'', m_planetKey = ''earth'',
                   m_missionType = ''Capture'', m_isEndless = False, m_speedScore = 5\<rparr>"

abbreviation example_catalog :: catalog where
  "example_catalog \<equiv>
     \<lparr>MASTER_ROWS =
        [\<lparr>row_resource = ''Rubedo'', row_node = ''N2'', row_planet = ''Earth'',
          row_missionType = ''Capture'', row_isEndless = False, row_speedScore = 5,
          row_dropScore = 4, row_rKey = ''rubedo'', row_nKey = ''n2'', row_pKey = ''earth''\<rparr>,
         \<lparr>row_resource = ''Ferrite'', row_node = ''N2'', row_planet = ''Earth'',
          row_missionType = ''Capture'', row_isEndless = False, row_speedScore = 5,
          row_dropScore = 3, row_rKey = ''ferrite'', row_nKey = ''n2'', row_pKey = ''earth''\<rparr>,
         \<lparr>row_resource = ''Plastids'', row_node = ''N1'', row_planet = ''Earth'',
          row_missionType = ''Survival'', row_isEndless = True, row_speedScore = 3,
          row_dropScore = 5, row_rKey = ''plastids'', row_nKey = ''n1'', row_pKey = ''earth''\<rparr>,
         \<lparr>row_resource = ''Rubedo'', row_node = ''N1'', row_planet = ''Earth'',
          row_missionType = ''Survival'', row_isEndless = True, row_speedScore = 3,
          row_dropScore = 0, row_rKey = ''rubedo'', row_nKey = ''n1'', row_pKey = ''earth''\<rparr>],
      PLANET_DROPS = [(''plastids'', [''earth'']), (''rubedo'', [''earth''])],
      RESOURCES = [''Ferrite'', ''Plastids'', ''Rubedo''],
      NODE_META = [(''n2'', example_N2), (''n1'', example_N1)],
      EXPLICIT =
        [(''rubedo'', [(''n2'', \<lparr>x_dropScore = 4, x_speedScore = 5, x_isEndless = False\<rparr>),
                       (''n1'', \<lparr>x_dropScore = 0, x_speedScore = 3, x_isEndless = True\<rparr>)]),
         (''ferrite'', [(''n2'', \<lparr>x_dropScore = 3, x_speedScore = 5, x_isEndless = False\<rparr>)]),
         (''plastids'', [(''n1'', \<lparr>x_dropScore = 5, x_speedScore = 3, x_isEndless = True\<rparr>)])]\<rparr>"

section \<open>Strings: facts\<close>

lemmas string_eval = quickMissionMultiplier_def norm_str_def trim_def toLowerCase_def toLowerChar_def isSpace_def Let_def char_of_def bit_Suc_0_iff

lemma take_eq_iff_prefix: "take (length p) s = p \<longleftrightarrow> (\<exists>post. s = p @ post)"
proof
  assume "take (length p) s = p"
  then have "s = p @ drop (length p) s"
    by (metis append_take_drop_id)
  then show "\<exists>post. s = p @ post" ..
next
  assume "\<exists>post. s = p @ post"
  then show "take (length p) s = p" by auto
qed

lemma str_includes_iff: "str_includes s p \<longleftrightarrow> (\<exists>pre post. s = pre @ p @ post)"
proof (induction s)
  case Nil
  show ?case by auto
next
  case (Cons c cs)
  show ?case
  proof
    assume "str_includes (c # cs) p"
    then consider "take (length p) (c # cs) = p" | "str_includes cs p" by auto
    then show "\<exists>pre post. c # cs = pre @ p @ post"
    proof cases
      case 1
      then obtain post where "c # cs = p @ post"
        using take_eq_iff_prefix by blast
      then have "c # cs = [] @ p @ post" by simp
      then show ?thesis by blast
    next
      case 2
      then obtain pre post where "cs = pre @ p @ post"
        using Cons.IH by blast
      then have "c # cs = (c # pre) @ p @ post" by simp
      then show ?thesis by blast
    qed
  next
    assume "\<exists>pre post. c # cs = pre @ p @ post"
    then obtain pre post where eq: "c # cs = pre @ p @ post" by blast
    show "str_includes (c # cs) p"
    proof (cases pre)
      case Nil
      with eq have "take (length p) (c # cs) = p"
        using take_eq_iff_prefix [of p "c # cs"] by auto
      then show ?thesis by simp
    next
      case (Cons d pre')
      with eq have "cs = pre' @ p @ post" by simp
      then have "str_includes cs p" using Cons.IH by blast
      then show ?thesis by simp
    qed
  qed
qed

lemma str_includes_suffix_part: "str_includes s (a @ b) \<Longrightarrow> str_includes s b"
proof -
  assume "str_includes s (a @ b)"
  then obtain pre post where "s = pre @ (a @ b) @ post"
    using str_includes_iff by blast
  then have "s = (pre @ a) @ b @ post" by simp
  then show ?thesis using str_includes_iff by blast
qed

lemma mobile_defense_includes_defense:
  "str_includes s ''mobile defense'' \<Longrightarrow> str_includes s ''defense''"
  using str_includes_suffix_part [of s "''mobile ''" "''defense''"] by simp

section \<open>The speed multiplier\<close>

text \<open>
  Claim C7.  For every speed score \<open>s\<close>, \<open>quickMultiplier s\<close> is
  \<open>0.6 + 0.4 * (clamp s 0 5 / 5)\<close>, it lies between 0.6 and 1.0, and it does not decrease
  when its argument grows within \<open>[0, 5]\<close>.
\<close>

theorem quickMultiplier_spec:
  "quickMultiplier s = 0.6 + 0.4 * (max 0 (min 5 s) / 5)
   \<and> 0.6 \<le> quickMultiplier s \<and> quickMultiplier s \<le> 1.0
   \<and> (0 \<le> a \<and> a \<le> b \<and> b \<le> 5 \<longrightarrow> quickMultiplier a \<le> quickMultiplier b)"
  by (auto simp: quickMultiplier_def Let_def max_def min_def)

theorem quickMultiplier_spec_witness:
  "quickMultiplier 7 = 1 \<and> (0::real) \<le> 1 \<and> (1::real) \<le> 3 \<and> (3::real) \<le> 5
   \<and> quickMultiplier 1 \<le> quickMultiplier 3 \<and> quickMultiplier 1 = 0.68"
  using quickMultiplier_spec [of 7 1 3] quickMultiplier_spec [of 1 1 3] by simp

section \<open>The mission-type multiplier\<close>

text \<open>
  Claim C1.  The claim is that \<open>quickMissionMultiplier mt True\<close> is 0.92 times
  \<open>quickMissionMultiplier mt False\<close> for every mission type.  Every matched rule returns
  before the penalty is applied: for \<^verbatim>\<open>"Capture"\<close> both calls give 1.40, so the endless
  call is not 0.92 times the other one.
\<close>

theorem endless_penalty_skipped_on_match:
  "quickMissionMultiplier ''Capture'' True = 1.40
   \<and> quickMissionMultiplier ''Capture'' False = 1.40
   \<and> quickMissionMultiplier ''Capture'' True \<noteq> 0.92 * quickMissionMultiplier ''Capture'' False"
  by (simp add: string_eval)

text \<open>
  Claim C10, as stated, fails: a mission type that contains \<^verbatim>\<open>mobile defense\<close> and also
  the text of one of the eight rules ahead of \<^verbatim>\<open>defense\<close> gets that rule's bias, not 0.86.
\<close>

theorem mobile_defense_counterexample:
  "str_includes (norm_str ''Capture (Mobile Defense)'') ''mobile defense''
   \<and> quickMissionMultiplier ''Capture (Mobile Defense)'' False \<noteq> 0.86"
  by (simp add: string_eval)

text \<open>
  Claim C10, amended.  A mission type whose normalised form contains \<^verbatim>\<open>mobile defense\<close>
  contains \<^verbatim>\<open>defense\<close>; when none of the eight rules ahead of \<^verbatim>\<open>defense\<close> matches
  it, the result is 0.86.  The \<^verbatim>\<open>mobile defense\<close> branch is never taken: no input at all
  gives 0.82.
\<close>

theorem mobile_defense_branch:
  assumes "str_includes (norm_str mt) ''mobile defense''"
  shows "str_includes (norm_str mt) ''defense''
    \<and> (\<not> str_includes (norm_str mt) ''capture'' \<and> \<not> str_includes (norm_str mt) ''exterminate''
        \<and> \<not> str_includes (norm_str mt) ''rescue'' \<and> \<not> str_includes (norm_str mt) ''sabotage''
        \<and> \<not> str_includes (norm_str mt) ''spy'' \<and> \<not> str_includes (norm_str mt) ''disruption''
        \<and> \<not> str_includes (norm_str mt) ''activity'' \<and> \<not> str_includes (norm_str mt) ''survival''
        \<longrightarrow> quickMissionMultiplier mt e = 0.86)
    \<and> quickMissionMultiplier mt' e' \<noteq> 0.82"
proof -
  have d: "str_includes (norm_str mt) ''defense''"
    using assms by (rule mobile_defense_includes_defense)
  have u: "quickMissionMultiplier mt' e' \<noteq> 0.82"
    using mobile_defense_includes_defense [of "norm_str mt'"]
    by (auto simp: quickMissionMultiplier_def Let_def)
  show ?thesis using d u by (simp add: quickMissionMultiplier_def Let_def)
qed

theorem mobile_defense_branch_witness:
  "str_includes (norm_str '' Mobile Defense'') ''mobile defense''
   \<and> quickMissionMultiplier '' Mobile Defense'' True = 0.86
   \<and> quickMissionMultiplier ''Mobile Defense'' False \<noteq> 0.82"
proof -
  have h: "str_includes (norm_str '' Mobile Defense'') ''mobile defense''"
    by (simp add: string_eval)
  have n: "\<not> str_includes (norm_str '' Mobile Defense'') ''capture'' \<and> \<not> str_includes (norm_str '' Mobile Defense'') ''exterminate''
        \<and> \<not> str_includes (norm_str '' Mobile Defense'') ''rescue'' \<and> \<not> str_includes (norm_str '' Mobile Defense'') ''sabotage''
        \<and> \<not> str_includes (norm_str '' Mobile Defense'') ''spy'' \<and> \<not> str_includes (norm_str '' Mobile Defense'') ''disruption''
        \<and> \<not> str_includes (norm_str '' Mobile Defense'') ''activity'' \<and> \<not> str_includes (norm_str '' Mobile Defense'') ''survival''"
    by (simp add: string_eval)
  show ?thesis
    using h n mobile_defense_branch [OF h, of True "''Mobile Defense''" False] by blast
qed

section \<open>Close-score grouping: facts\<close>

lemma subseq_set_subset: "subseq xs ys \<Longrightarrow> set xs \<subseteq> set ys"
  by (induction rule: list_emb.induct) auto

lemma sorted_wrt_subseq: "subseq xs ys \<Longrightarrow> sorted_wrt P ys \<Longrightarrow> sorted_wrt P xs"
proof (induction rule: list_emb.induct)
  case (list_emb_Nil ys)
  then show ?case by simp
next
  case (list_emb_Cons xs ys y)
  then show ?case by simp
next
  case (list_emb_Cons2 x y xs ys)
  then have "set xs \<subseteq> set ys" using subseq_set_subset by blast
  with list_emb_Cons2 show ?case by auto
qed

lemma pickLoop_length:
  "length (pickLoop best m xs out) \<le> max m (length out)"
proof (induction xs arbitrary: out)
  case Nil
  then show ?case by simp
next
  case (Cons it rest)
  show ?case
  proof (cases "length out \<ge> m")
    case True
    then show ?thesis by simp
  next
    case False
    have "length (pickLoop best m rest (out @ [it])) \<le> max m (length (out @ [it]))"
      by (rule Cons.IH)
    moreover have "length (pickLoop best m rest out) \<le> max m (length out)"
      by (rule Cons.IH)
    ultimately show ?thesis using False by auto
  qed
qed

lemma pickLoop_append:
  "\<exists>ys. pickLoop best m xs out = out @ ys \<and> subseq ys xs \<and> (\<forall>y\<in>set ys. score y \<ge> best * 0.9)"
proof (induction xs arbitrary: out)
  case Nil
  then show ?case by simp
next
  case (Cons it rest)
  show ?case
  proof (cases "length out \<ge> m")
    case True
    then show ?thesis by simp
  next
    case False
    show ?thesis
    proof (cases "score it \<ge> best * 0.9")
      case True
      obtain ys where ys: "pickLoop best m rest (out @ [it]) = (out @ [it]) @ ys"
        "subseq ys rest" "\<forall>y\<in>set ys. score y \<ge> best * 0.9"
        using Cons.IH [of "out @ [it]"] by blast
      have "pickLoop best m (it # rest) out = out @ (it # ys)"
        using False True ys(1) by simp
      moreover have "subseq (it # ys) (it # rest)" using ys(2) by simp
      moreover have "\<forall>y\<in>set (it # ys). score y \<ge> best * 0.9" using True ys(3) by simp
      ultimately show ?thesis by blast
    next
      case no: False
      obtain ys where ys: "pickLoop best m rest out = out @ ys"
        "subseq ys rest" "\<forall>y\<in>set ys. score y \<ge> best * 0.9"
        using Cons.IH [of out] by blast
      have "pickLoop best m (it # rest) out = out @ ys"
        using False no ys(1) by simp
      moreover have "subseq ys (it # rest)" using ys(2) by (rule list_emb_Cons)
      ultimately show ?thesis using ys(3) by blast
    qed
  qed
qed

lemma pickLoop_prefix_kept:
  "out \<noteq> [] \<Longrightarrow> pickLoop best m xs out \<noteq> []"
  using pickLoop_append [of best m xs out] by auto

lemma pickTopOptions_length: "length (pickTopOptions xs m) \<le> m"
proof (cases xs)
  case Nil
  then show ?thesis by (simp add: pickTopOptions_def)
next
  case (Cons first rest)
  have "length (pickLoop (score first) m xs []) \<le> max m (length ([] :: 'a scored_scheme list))"
    by (rule pickLoop_length)
  then show ?thesis using Cons by (simp add: pickTopOptions_def del: pickLoop.simps)
qed

lemma pickTopOptions_subseq: "subseq (pickTopOptions xs m) xs"
proof (cases xs)
  case Nil
  then show ?thesis by (simp add: pickTopOptions_def)
next
  case (Cons first rest)
  obtain ys where "pickLoop (score first) m xs [] = [] @ ys" "subseq ys xs"
    using pickLoop_append [of "score first" m xs "[]"] by blast
  then show ?thesis using Cons by (simp add: pickTopOptions_def del: pickLoop.simps)
qed

lemma pickTopOptions_set: "set (pickTopOptions xs m) \<subseteq> set xs"
  using pickTopOptions_subseq subseq_set_subset by blast

lemma pickTopOptions_close:
  "it \<in> set (pickTopOptions xs m) \<Longrightarrow> score it \<ge> score (hd xs) * 0.9"
proof (cases xs)
  case Nil
  assume "it \<in> set (pickTopOptions xs m)"
  with Nil show ?thesis by (simp add: pickTopOptions_def)
next
  case (Cons first rest)
  assume a: "it \<in> set (pickTopOptions xs m)"
  obtain ys where "pickLoop (score first) m xs [] = [] @ ys" "\<forall>y\<in>set ys. score y \<ge> score first * 0.9"
    using pickLoop_append [of "score first" m xs "[]"] by blast
  with a Cons show ?thesis by (simp add: pickTopOptions_def del: pickLoop.simps)
qed

lemma pickTopOptions_nonempty:
  "xs \<noteq> [] \<Longrightarrow> m \<ge> 1 \<Longrightarrow> score (hd xs) \<ge> 0 \<Longrightarrow> pickTopOptions xs m \<noteq> []"
proof (cases xs)
  case Nil
  assume "xs \<noteq> []"
  with Nil show ?thesis by simp
next
  case (Cons first rest)
  assume m: "m \<ge> 1" and nn: "score (hd xs) \<ge> 0"
  have "score first \<ge> score first * 0.9" using nn Cons by simp
  then have "pickTopOptions xs m = pickLoop (score first) m rest [first]"
    using m Cons by (simp add: pickTopOptions_def)
  then show ?thesis using pickLoop_prefix_kept [of "[first]"] by simp
qed

text \<open>
  Claim C2, amended.  For a list sorted by descending score and \<open>maxOptions\<close> at least 1,
  \<open>pickTopOptions\<close> returns at most \<open>maxOptions\<close> items, each with a score of at least
  0.9 times the first input score, as a subsequence of the input and hence in descending
  order; the result is not empty when the input is not empty and its first score is
  not negative.
\<close>

theorem pickTopOptions_close_group:
  assumes "sorted_wrt (\<lambda>a b. score a \<ge> score b) xs" and "maxOptions \<ge> 1"
  shows "length (pickTopOptions xs maxOptions) \<le> maxOptions
     \<and> (\<forall>it \<in> set (pickTopOptions xs maxOptions). score it \<ge> 0.9 * score (hd xs))
     \<and> subseq (pickTopOptions xs maxOptions) xs
     \<and> sorted_wrt (\<lambda>a b. score a \<ge> score b) (pickTopOptions xs maxOptions)
     \<and> (xs \<noteq> [] \<and> score (hd xs) \<ge> 0 \<longrightarrow> pickTopOptions xs maxOptions \<noteq> [])"
proof -
  have 1: "length (pickTopOptions xs maxOptions) \<le> maxOptions"
    by (rule pickTopOptions_length)
  have 2: "\<forall>it \<in> set (pickTopOptions xs maxOptions). score it \<ge> 0.9 * score (hd xs)"
    using pickTopOptions_close [of _ xs maxOptions] by (simp add: mult.commute)
  have 3: "subseq (pickTopOptions xs maxOptions) xs"
    by (rule pickTopOptions_subseq)
  have 4: "sorted_wrt (\<lambda>a b. score a \<ge> score b) (pickTopOptions xs maxOptions)"
    using 3 assms(1) by (rule sorted_wrt_subseq)
  have 5: "xs \<noteq> [] \<and> score (hd xs) \<ge> 0 \<longrightarrow> pickTopOptions xs maxOptions \<noteq> []"
    using pickTopOptions_nonempty [of xs maxOptions] assms(2) by blast
  show ?thesis using 1 2 3 4 5 by blast
qed

theorem pickTopOptions_close_group_witness:
  "sorted_wrt (\<lambda>a b. score a \<ge> score b)
     [\<lparr>nodeKey = ''a'', score = 10\<rparr>, \<lparr>nodeKey = ''b'', score = 9.5\<rparr>,
      \<lparr>nodeKey = ''c'', score = 4\<rparr>]
   \<and> (2::nat) \<ge> 1
   \<and> pickTopOptions [\<lparr>nodeKey = ''a'', score = 10\<rparr>, \<lparr>nodeKey = ''b'', score = 9.5\<rparr>,
      \<lparr>nodeKey = ''c'', score = 4\<rparr>] 2 = [\<lparr>nodeKey = ''a'', score = 10\<rparr>, \<lparr>nodeKey = ''b'', score = 9.5\<rparr>]
   \<and> length (pickTopOptions [\<lparr>nodeKey = ''a'', score = 10\<rparr>, \<lparr>nodeKey = ''b'', score = 9.5\<rparr>,
      \<lparr>nodeKey = ''c'', score = 4\<rparr>] 2) \<le> 2"
proof -
  let ?xs = "[\<lparr>nodeKey = ''a'', score = 10\<rparr>, \<lparr>nodeKey = ''b'', score = 9.5\<rparr>,
      \<lparr>nodeKey = ''c'', score = (4::real)\<rparr>]"
  have s: "sorted_wrt (\<lambda>a b. score a \<ge> score b) ?xs" by simp
  have m: "(2::nat) \<ge> 1" by simp
  have v: "pickTopOptions ?xs 2 = [\<lparr>nodeKey = ''a'', score = 10\<rparr>, \<lparr>nodeKey = ''b'', score = 9.5\<rparr>]"
    by (simp add: pickTopOptions_def)
  show ?thesis using s m v pickTopOptions_close_group [OF s m] by simp
qed

text \<open>
  Claim C2, as stated, fails on a best score below zero: \<open>- 1 \<ge> - 1 * 0.9\<close> is false, so
  the best item does not qualify against itself and nothing is returned.
\<close>

theorem pickTopOptions_negative_best_counterexample:
  "sorted_wrt (\<lambda>a b. score a \<ge> score b) [\<lparr>nodeKey = ''n1'', score = - 1\<rparr>]
   \<and> (3::nat) \<ge> 1
   \<and> [\<lparr>nodeKey = ''n1'', score = - 1\<rparr>] \<noteq> []
   \<and> pickTopOptions [\<lparr>nodeKey = ''n1'', score = - 1\<rparr>] 3 = []"
  by (simp add: pickTopOptions_def)

section \<open>Catalog build: rows without a resource or a node\<close>

lemma masterRowStep_skip:
  "trim (col row ''resource'' ''Resource'') = [] \<or> trim (col row ''node'' ''Node'') = []
     \<Longrightarrow> masterRowStep toNumber row st = st"
  by (auto simp: masterRowStep_def Let_def)

lemma fold_masterRowStep_skip:
  assumes "masterRowStep toNumber row = (\<lambda>st. st)"
  shows "fold (masterRowStep toNumber) (pre @ [row] @ post) st = fold (masterRowStep toNumber) (pre @ post) st"
  using assms by simp

text \<open>
  Claim C9.  A master row whose resource or node is empty after trimming leaves the state
  of the build as it was (no row record, no node metadata, no explicit record); the catalog
  built from rows that contain it is the catalog built without it, the resource list
  included; and the build succeeds whenever both files were fetched.
\<close>

theorem empty_key_rows_skipped:
  assumes "trim (col row ''resource'' ''Resource'') = [] \<or> trim (col row ''node'' ''Node'') = []"
  shows "masterRowStep toNumber row st = st
    \<and> loadData toNumber localeCompare (masterRes\<lparr>rows := pre @ [row] @ post\<rparr>) planetRes st0
        = loadData toNumber localeCompare (masterRes\<lparr>rows := pre @ post\<rparr>) planetRes st0
    \<and> (ok masterRes \<and> ok planetRes \<longrightarrow>
         (\<exists>cat. loadData toNumber localeCompare (masterRes\<lparr>rows := pre @ [row] @ post\<rparr>) planetRes st0 = Inr cat))"
proof -
  have skip: "masterRowStep toNumber row s = s" for s
    using assms by (rule masterRowStep_skip)
  then have "masterRowStep toNumber row = (\<lambda>st. st)" by (simp add: fun_eq_iff)
  then have f: "fold (masterRowStep toNumber) (pre @ [row] @ post) s
      = fold (masterRowStep toNumber) (pre @ post) s" for s
    by (rule fold_masterRowStep_skip)
  have 2: "loadData toNumber localeCompare (masterRes\<lparr>rows := pre @ [row] @ post\<rparr>) planetRes st0
        = loadData toNumber localeCompare (masterRes\<lparr>rows := pre @ post\<rparr>) planetRes st0"
    unfolding loadData_def using f by simp
  have 3: "ok masterRes \<and> ok planetRes \<longrightarrow>
         (\<exists>cat. loadData toNumber localeCompare (masterRes\<lparr>rows := pre @ [row] @ post\<rparr>) planetRes st0 = Inr cat)"
    by (simp add: loadData_def Let_def)
  show ?thesis using skip 2 3 by blast
qed

theorem empty_key_rows_skipped_witness:
  "(trim (col [''resource'' \<mapsto> ''   '', ''node'' \<mapsto> ''N9'', ''dropScore'' \<mapsto> ''5''] ''resource'' ''Resource'') = []
      \<or> trim (col [''resource'' \<mapsto> ''   '', ''node'' \<mapsto> ''N9'', ''dropScore'' \<mapsto> ''5''] ''node'' ''Node'') = [])
   \<and> loadData (\<lambda>s. if s = ''5'' then 5 else if s = ''3'' then 3 else 0) (\<lambda>a b. 0)
        \<lparr>ok = True, rows =
           [[''resource'' \<mapsto> ''   '', ''node'' \<mapsto> ''N9'', ''dropScore'' \<mapsto> ''5''],
            [''resource'' \<mapsto> ''Plastids'', ''node'' \<mapsto> '' N1'', ''planet'' \<mapsto> ''Earth'',
             ''missionType'' \<mapsto> ''Survival'', ''isEndless'' \<mapsto> ''TRUE'',
             ''speedScore'' \<mapsto> ''3'', ''dropScore'' \<mapsto> ''5'']]\<rparr>
        \<lparr>ok = True, rows = [[''planet'' \<mapsto> ''Earth'', ''resources'' \<mapsto> ''Plastids, Rubedo'']]\<rparr>
        \<lparr>MASTER_ROWS = [], PLANET_DROPS = [], RESOURCES = [], NODE_META = [], EXPLICIT = []\<rparr>
     = Inr \<lparr>MASTER_ROWS =
              [\<lparr>row_resource = ''Plastids'', row_node = ''N1'', row_planet = ''Earth'',
                row_missionType = ''Survival'', row_isEndless = True, row_speedScore = 3,
                row_dropScore = 5, row_rKey = ''plastids'', row_nKey = ''n1'', row_pKey = ''earth''\<rparr>],
            PLANET_DROPS = [(''plastids'', [''earth'']), (''rubedo'', [''earth''])],
            RESOURCES = [''Plastids''],
            NODE_META = [(''n1'', \<lparr>m_node = ''N1'', m_planet = ''Earth'', m_planetKey = ''earth'',
                           m_missionType = ''Survival'', m_isEndless = True, m_speedScore = 3\<rparr>)],
            EXPLICIT = [(''plastids'', [(''n1'', \<lparr>x_dropScore = 5, x_speedScore = 3, x_isEndless = True\<rparr>)])]\<rparr>"
proof -
  define blank :: raw_row where "blank = [''resource'' \<mapsto> ''   '', ''node'' \<mapsto> ''N9'', ''dropScore'' \<mapsto> ''5'']"
  define good :: raw_row where "good = [''resource'' \<mapsto> ''Plastids'', ''node'' \<mapsto> '' N1'', ''planet'' \<mapsto> ''Earth'',
             ''missionType'' \<mapsto> ''Survival'', ''isEndless'' \<mapsto> ''TRUE'',
             ''speedScore'' \<mapsto> ''3'', ''dropScore'' \<mapsto> ''5'']"
  define toNumber :: "string \<Rightarrow> real" where "toNumber = (\<lambda>s. if s = ''5'' then 5 else if s = ''3'' then 3 else 0)"
  define cmp :: "string \<Rightarrow> string \<Rightarrow> real" where "cmp = (\<lambda>a b. 0)"
  define planetRes where "planetRes = \<lparr>ok = True, rows = [[''planet'' \<mapsto> ''Earth'', ''resources'' \<mapsto> ''Plastids, Rubedo'']]\<rparr>"
  define st0 where "st0 = \<lparr>MASTER_ROWS = [], PLANET_DROPS = [], RESOURCES = [], NODE_META = [], EXPLICIT = []\<rparr>"
  have h: "trim (col blank ''resource'' ''Resource'') = [] \<or> trim (col blank ''node'' ''Node'') = []"
    by (simp add: blank_def col_def trim_def isSpace_def)
  have ev: "loadData (\<lambda>s. if s = ''5'' then 5 else if s = ''3'' then 3 else 0) (\<lambda>a b. 0)
        \<lparr>ok = True, rows =
           [[''resource'' \<mapsto> ''Plastids'', ''node'' \<mapsto> '' N1'', ''planet'' \<mapsto> ''Earth'',
             ''missionType'' \<mapsto> ''Survival'', ''isEndless'' \<mapsto> ''TRUE'',
             ''speedScore'' \<mapsto> ''3'', ''dropScore'' \<mapsto> ''5'']]\<rparr>
        \<lparr>ok = True, rows = [[''planet'' \<mapsto> ''Earth'', ''resources'' \<mapsto> ''Plastids, Rubedo'']]\<rparr>
        \<lparr>MASTER_ROWS = [], PLANET_DROPS = [], RESOURCES = [], NODE_META = [], EXPLICIT = []\<rparr>
     = Inr \<lparr>MASTER_ROWS =
              [\<lparr>row_resource = ''Plastids'', row_node = ''N1'', row_planet = ''Earth'',
                row_missionType = ''Survival'', row_isEndless = True, row_speedScore = 3,
                row_dropScore = 5, row_rKey = ''plastids'', row_nKey = ''n1'', row_pKey = ''earth''\<rparr>],
            PLANET_DROPS = [(''plastids'', [''earth'']), (''rubedo'', [''earth''])],
            RESOURCES = [''Plastids''],
            NODE_META = [(''n1'', \<lparr>m_node = ''N1'', m_planet = ''Earth'', m_planetKey = ''earth'',
                           m_missionType = ''Survival'', m_isEndless = True, m_speedScore = 3\<rparr>)],
            EXPLICIT = [(''plastids'', [(''n1'', \<lparr>x_dropScore = 5, x_speedScore = 3, x_isEndless = True\<rparr>)])]\<rparr>"
    by code_simp
  note inst = empty_key_rows_skipped [OF h, where toNumber = toNumber and localeCompare = cmp
        and masterRes = "\<lparr>ok = True, rows = []\<rparr>" and pre = "[]" and post = "[good]"
        and planetRes = planetRes and ?st0.0 = st0]
  have "loadData toNumber cmp \<lparr>ok = True, rows = [blank, good]\<rparr> planetRes st0
      = loadData toNumber cmp \<lparr>ok = True, rows = [good]\<rparr> planetRes st0"
    using inst by simp
  then show ?thesis
    using h ev unfolding blank_def good_def toNumber_def cmp_def planetRes_def st0_def by simp
qed

text \<open>
  The example catalog is what \<open>loadData\<close> builds from the example rows, with a number
  conversion that reads the cells of the example and a comparison by first letter (which
  orders these names as \<^verbatim>\<open>localeCompare\<close> does).
\<close>

lemma example_catalog_loaded:
  "loadData (\<lambda>s. if s = ''5'' then 5 else if s = ''4'' then 4 else if s = ''3'' then 3 else 0)
     (\<lambda>a b. real (of_char (hd a)) - real (of_char (hd b)))
     example_master example_planet
     \<lparr>MASTER_ROWS = [], PLANET_DROPS = [], RESOURCES = [], NODE_META = [], EXPLICIT = []\<rparr>
   = Inr example_catalog"
  by code_simp

section \<open>Normalised keys\<close>

lemma toLowerChar_code:
  "(of_char (toLowerChar c) :: nat) = (let n = of_char c in if 65 \<le> n \<and> n \<le> 90 then n + 32 else n)"
  by (simp add: toLowerChar_def Let_def)

lemma isSpace_toLowerChar: "isSpace (toLowerChar c) = isSpace c"
  unfolding isSpace_def toLowerChar_code by (auto simp: Let_def)

lemma toLowerChar_idem: "toLowerChar (toLowerChar c) = toLowerChar c"
proof -
  have "(of_char (toLowerChar (toLowerChar c)) :: nat) = of_char (toLowerChar c)"
    unfolding toLowerChar_code by (auto simp: Let_def)
  then show ?thesis by (metis char_of_char)
qed

lemma dropWhile_isSpace_toLowerCase:
  "dropWhile isSpace (toLowerCase s) = toLowerCase (dropWhile isSpace s)"
  by (induction s) (auto simp: toLowerCase_def isSpace_toLowerChar)

lemma trim_toLowerCase: "trim (toLowerCase s) = toLowerCase (trim s)"
proof -
  have r: "rev (toLowerCase s) = toLowerCase (rev s)" for s
    by (simp add: toLowerCase_def rev_map)
  show ?thesis
    unfolding trim_def by (simp add: dropWhile_isSpace_toLowerCase r)
qed

lemma dropWhile_noop: "xs = [] \<or> \<not> P (hd xs) \<Longrightarrow> dropWhile P xs = xs"
  by (cases xs) auto

lemma dropWhile_head: "dropWhile P xs = [] \<or> \<not> P (hd (dropWhile P xs))"
  by (metis hd_dropWhile)

lemma strip_end_keeps_head:
  assumes "t = [] \<or> \<not> P (hd t)"
  shows "rev (dropWhile P (rev t)) = [] \<or> \<not> P (hd (rev (dropWhile P (rev t))))"
proof (cases "t = []")
  case True
  then show ?thesis by simp
next
  case False
  then obtain a u where t: "t = a # u" by (cases t) auto
  with assms have na: "\<not> P a" by simp
  have "\<exists>w. rev (dropWhile P (rev u @ [a])) = a # w"
  proof -
    have "dropWhile P (rev u @ [a]) = dropWhile P (rev u) @ [a] \<or> dropWhile P (rev u @ [a]) = [a]"
      using na by (auto simp: dropWhile_append)
    then consider "rev (dropWhile P (rev u @ [a])) = a # rev (dropWhile P (rev u))"
      | "rev (dropWhile P (rev u @ [a])) = a # []"
      by auto
    then show ?thesis by cases blast+
  qed
  then show ?thesis using t na by auto
qed

lemma trim_idem: "trim (trim s) = trim s"
proof -
  let ?t = "dropWhile isSpace s"
  let ?u = "rev (dropWhile isSpace (rev ?t))"
  have h: "?u = [] \<or> \<not> isSpace (hd ?u)"
    using strip_end_keeps_head [of ?t isSpace] dropWhile_head [of isSpace s] by blast
  then have "dropWhile isSpace ?u = ?u" by (rule dropWhile_noop)
  then have "trim ?u = rev (dropWhile isSpace (rev ?u))" by (simp add: trim_def)
  also have "\<dots> = ?u" by simp
  finally show ?thesis by (simp add: trim_def)
qed

lemma norm_str_idem: "norm_str (norm_str s) = norm_str s"
proof -
  have "toLowerCase (toLowerCase t) = toLowerCase t" for t
    by (simp add: toLowerCase_def toLowerChar_idem)
  then show ?thesis
    by (simp add: norm_str_def trim_toLowerCase trim_idem)
qed

lemma norm_str_Nil: "norm_str [] = []"
  by (simp add: norm_str_def trim_def toLowerCase_def)

section \<open>Sets, maps and sorting\<close>

lemma set_insort_cmp: "set (insort_cmp cmp x ys) = insert x (set ys)"
  by (induction ys) auto

lemma set_sort_cmp: "set (sort_cmp cmp xs) = set xs"
  by (induction xs) (auto simp: sort_cmp_def set_insort_cmp)

lemma set_sortByScoreDesc: "set (sortByScoreDesc xs) = set xs"
  by (simp add: sortByScoreDesc_def set_sort_cmp)

lemma sortByScoreDesc_Nil: "sortByScoreDesc [] = []"
  by (simp add: sortByScoreDesc_def sort_cmp_def)

lemma set_fold_set_add: "set (fold set_add xs s) = set xs \<union> set s"
  by (induction xs arbitrary: s) (auto simp: set_add_def)

lemma set_new_Set: "set (new_Set xs) = set xs"
  by (simp add: new_Set_def set_fold_set_add)

lemma fold_set_add_distinct:
  "distinct (s @ xs) \<Longrightarrow> fold set_add xs s = s @ xs"
  by (induction xs arbitrary: s) (auto simp: set_add_def)

lemma new_Set_distinct: "distinct xs \<Longrightarrow> new_Set xs = xs"
  using fold_set_add_distinct [of "[]" xs] by (simp add: new_Set_def)

lemma fold_set_delete:
  "fold (\<lambda>ci rem. set_delete (f ci) rem) cs rem = filter (\<lambda>k. k \<notin> f ` set cs) rem"
proof (induction cs arbitrary: rem)
  case Nil
  then show ?case by simp
next
  case (Cons ci cs)
  have "filter (\<lambda>k. k \<notin> f ` set cs) (filter (\<lambda>y. y \<noteq> f ci) rem)
      = filter (\<lambda>k. k \<notin> f ` set (ci # cs)) rem"
    by (induction rem) auto
  then show ?case using Cons.IH by (simp add: set_delete_def)
qed

lemma fold_keep_filter:
  "fold (\<lambda>x kept. if P x then kept @ [x] else kept) xs kept = kept @ filter P xs"
  by (induction xs arbitrary: kept) auto

lemma map_of_fold_update:
  "map_of (fold (\<lambda>kv m. AList.update (fst kv) (snd kv) m) kvs m0)
     = fold (\<lambda>kv f. f(fst kv \<mapsto> snd kv)) kvs (map_of m0)"
  by (induction kvs arbitrary: m0) (auto simp: update_conv')

lemma fold_upd_keyed:
  assumes "\<And>k r. f0 k = Some r \<Longrightarrow> g r = k"
    and "fold (\<lambda>kv f. f(fst kv \<mapsto> snd kv)) (map (\<lambda>r. (g r, r)) sel) f0 k = Some r"
  shows "g r = k"
  using assms
proof (induction sel arbitrary: f0)
  case Nil
  then show ?case by simp
next
  case (Cons a sel)
  have "\<And>k r. (f0(g a \<mapsto> a)) k = Some r \<Longrightarrow> g r = k"
    using Cons.prems(1) by (auto split: if_splits)
  moreover have "fold (\<lambda>kv f. f(fst kv \<mapsto> snd kv)) (map (\<lambda>r. (g r, r)) sel) (f0(g a \<mapsto> a)) k = Some r"
    using Cons.prems(2) by (simp del: fun_upd_apply)
  ultimately show ?case by (rule Cons.IH)
qed

lemma fold_upd_distinct:
  assumes "distinct (map g sel)" and "r \<in> set sel \<or> (f0 (g r) = Some r \<and> g r \<notin> g ` set sel)"
  shows "fold (\<lambda>kv f. f(fst kv \<mapsto> snd kv)) (map (\<lambda>r. (g r, r)) sel) f0 (g r) = Some r"
  using assms
proof (induction sel arbitrary: f0)
  case Nil
  then show ?case by simp
next
  case (Cons a sel)
  have d: "distinct (map g sel)" using Cons.prems(1) by simp
  have "r \<in> set sel \<or> ((f0(g a \<mapsto> a)) (g r) = Some r \<and> g r \<notin> g ` set sel)"
    using Cons.prems by auto
  then have "fold (\<lambda>kv f. f(fst kv \<mapsto> snd kv)) (map (\<lambda>r. (g r, r)) sel) (f0(g a \<mapsto> a)) (g r) = Some r"
    by (rule Cons.IH [OF d])
  then show ?case by (simp del: fun_upd_apply)
qed

lemma new_Map_keyed:
  "map_of (new_Map (map (\<lambda>r. (g r, r)) sel)) k = Some r \<Longrightarrow> g r = k"
  using fold_upd_keyed [of "map_of []" g sel k r]
  by (simp add: new_Map_def map_of_fold_update)

lemma new_Map_distinct:
  "distinct (map g sel) \<Longrightarrow> r \<in> set sel \<Longrightarrow> map_of (new_Map (map (\<lambda>r. (g r, r)) sel)) (g r) = Some r"
  using fold_upd_distinct [of g sel r "map_of []"]
  by (simp add: new_Map_def map_of_fold_update)

lemma norm_displayName:
  assumes "norm_str k = k"
  shows "norm_str (displayName (new_Map (map (\<lambda>r. (norm_str r, r)) sel)) k) = k"
proof (cases "map_of (new_Map (map (\<lambda>r. (norm_str r, r)) sel)) k")
  case None
  then show ?thesis using assms by (simp add: displayName_def)
next
  case (Some r)
  then have "norm_str r = k" by (rule new_Map_keyed)
  then show ?thesis using Some assms by (simp add: displayName_def)
qed

lemma displayName_distinct:
  assumes "distinct (map norm_str sel)" and "r \<in> set sel"
  shows "displayName (new_Map (map (\<lambda>r. (norm_str r, r)) sel)) (norm_str r) = r"
  using new_Map_distinct [OF assms] by (simp add: displayName_def norm_str_Nil)

section \<open>Maximize efficiency: facts\<close>

lemma scoreExplicitStep_mem:
  "opt \<in> set (scoreExplicitStep c runMode e scored) \<Longrightarrow>
     opt \<in> set scored \<or>
     (\<exists>meta. map_of (NODE_META c) (nodeKey opt) = Some meta \<and> nodeEligibleByRunMode meta runMode)"
  by (auto simp: scoreExplicitStep_def Let_def split: option.splits if_splits)

lemma scoreExplicit_eligible:
  "opt \<in> set (fold (scoreExplicitStep c runMode) es scored) \<Longrightarrow>
     opt \<in> set scored \<or>
     (\<exists>meta. map_of (NODE_META c) (nodeKey opt) = Some meta \<and> nodeEligibleByRunMode meta runMode)"
proof (induction es arbitrary: scored)
  case Nil
  then show ?case by simp
next
  case (Cons e es)
  have "opt \<in> set (fold (scoreExplicitStep c runMode) es (scoreExplicitStep c runMode e scored))"
    using Cons.prems by simp
  then have "opt \<in> set (scoreExplicitStep c runMode e scored) \<or>
     (\<exists>meta. map_of (NODE_META c) (nodeKey opt) = Some meta \<and> nodeEligibleByRunMode meta runMode)"
    by (rule Cons.IH)
  then show ?case using scoreExplicitStep_mem [of opt c runMode e scored] by blast
qed

lemma scoreExplicit_none_eligible:
  "\<forall>e \<in> set es. (case map_of (NODE_META c) (fst e) of None \<Rightarrow> True
                     | Some meta \<Rightarrow> \<not> nodeEligibleByRunMode meta runMode)
     \<Longrightarrow> fold (scoreExplicitStep c runMode) es scored = scored"
  by (induction es arbitrary: scored) (auto simp: scoreExplicitStep_def split: option.splits)

lemma pickTopOptions_Nil: "pickTopOptions [] m = []"
  by (simp add: pickTopOptions_def)

lemma efficiencyEntry_resource: "r_resource (efficiencyEntry c runMode rName) = rName"
  by (simp add: efficiencyEntry_def Let_def)

lemma efficiencyEntry_no_data:
  "map_of (EXPLICIT c) (norm_str rName) = None \<or> map_of (EXPLICIT c) (norm_str rName) = Some []
     \<Longrightarrow> efficiencyEntry c runMode rName
           = \<lparr>r_resource = rName, r_options = [], r_note = Some ''No explicit data for this resource.''\<rparr>"
  by (auto simp: efficiencyEntry_def Let_def)

lemma efficiencyEntry_none_eligible:
  assumes "map_of (EXPLICIT c) (norm_str rName) = Some m" and "m \<noteq> []"
    and "\<forall>e \<in> set m. (case map_of (NODE_META c) (fst e) of None \<Rightarrow> True
                     | Some meta \<Rightarrow> \<not> nodeEligibleByRunMode meta runMode)"
  shows "efficiencyEntry c runMode rName = \<lparr>r_resource = rName, r_options = [], r_note = None\<rparr>"
proof -
  have "fold (scoreExplicitStep c runMode) m [] = []"
    using assms(3) by (rule scoreExplicit_none_eligible)
  then show ?thesis
    using assms(1,2) by (simp add: efficiencyEntry_def Let_def sortByScoreDesc_Nil pickTopOptions_Nil)
qed

lemma efficiencyEntry_options_eligible:
  assumes "opt \<in> set (r_options (efficiencyEntry c runMode rName))"
  shows "\<exists>meta. map_of (NODE_META c) (nodeKey opt) = Some meta \<and> e_meta opt = Some meta
           \<and> nodeEligibleByRunMode meta runMode"
proof (cases "map_of (EXPLICIT c) (norm_str rName) = None \<or> length (the (map_of (EXPLICIT c) (norm_str rName))) = 0")
  case True
  then show ?thesis using assms by (simp add: efficiencyEntry_def Let_def)
next
  case False
  let ?m = "the (map_of (EXPLICIT c) (norm_str rName))"
  let ?picked = "pickTopOptions (sortByScoreDesc (fold (scoreExplicitStep c runMode) ?m [])) 3"
  from assms False obtain p where p: "p \<in> set ?picked"
    and opt: "opt = \<lparr>nodeKey = nodeKey p, score = score p, e_meta = map_of (NODE_META c) (nodeKey p)\<rparr>"
    by (auto simp: efficiencyEntry_def Let_def)
  have "p \<in> set (fold (scoreExplicitStep c runMode) ?m [])"
    using p pickTopOptions_set [of "sortByScoreDesc (fold (scoreExplicitStep c runMode) ?m [])" 3]
    by (auto simp: set_sortByScoreDesc)
  then obtain meta where "map_of (NODE_META c) (nodeKey p) = Some meta" "nodeEligibleByRunMode meta runMode"
    using scoreExplicit_eligible [of p c runMode ?m "[]"] by auto
  then show ?thesis using opt by simp
qed

text \<open>
  Claim C4, amended.  \<open>planMaximizeEfficiency\<close> is a total function that returns one entry
  for every requested resource, in order.  A resource without explicit records gets an
  entry with no options and the note \<^verbatim>\<open>No explicit data for this resource.\<close>; a resource
  whose records hold no eligible node gets an entry with no options and no note.
\<close>

theorem planMaximizeEfficiency_no_candidates:
  "map r_resource (planMaximizeEfficiency c selectedResources runMode) = selectedResources
   \<and> (\<forall>e \<in> set (planMaximizeEfficiency c selectedResources runMode).
        (map_of (EXPLICIT c) (norm_str (r_resource e)) = None
           \<or> map_of (EXPLICIT c) (norm_str (r_resource e)) = Some []
         \<longrightarrow> r_options e = [] \<and> r_note e = Some ''No explicit data for this resource.'')
      \<and> (\<forall>m. map_of (EXPLICIT c) (norm_str (r_resource e)) = Some m \<and> m \<noteq> []
              \<and> (\<forall>x \<in> set m. (case map_of (NODE_META c) (fst x) of None \<Rightarrow> True
                     | Some meta \<Rightarrow> \<not> nodeEligibleByRunMode meta runMode))
         \<longrightarrow> r_options e = [] \<and> r_note e = None))"
proof -
  have 1: "map r_resource (planMaximizeEfficiency c selectedResources runMode) = selectedResources"
    by (simp add: planMaximizeEfficiency_def efficiencyEntry_resource comp_def)
  have 2: "(map_of (EXPLICIT c) (norm_str (r_resource e)) = None
           \<or> map_of (EXPLICIT c) (norm_str (r_resource e)) = Some []
         \<longrightarrow> r_options e = [] \<and> r_note e = Some ''No explicit data for this resource.'')
      \<and> (\<forall>m. map_of (EXPLICIT c) (norm_str (r_resource e)) = Some m \<and> m \<noteq> []
              \<and> (\<forall>x \<in> set m. (case map_of (NODE_META c) (fst x) of None \<Rightarrow> True
                     | Some meta \<Rightarrow> \<not> nodeEligibleByRunMode meta runMode))
         \<longrightarrow> r_options e = [] \<and> r_note e = None)"
    if "e \<in> set (planMaximizeEfficiency c selectedResources runMode)" for e
  proof -
    have "e \<in> efficiencyEntry c runMode ` set selectedResources"
      using that by (simp add: planMaximizeEfficiency_def)
    then obtain rName where e: "e = efficiencyEntry c runMode rName"
      by (rule imageE)
    then have r: "r_resource e = rName" by (simp add: efficiencyEntry_resource)
    have a: "map_of (EXPLICIT c) (norm_str (r_resource e)) = None
           \<or> map_of (EXPLICIT c) (norm_str (r_resource e)) = Some []
         \<longrightarrow> r_options e = [] \<and> r_note e = Some ''No explicit data for this resource.''"
      using efficiencyEntry_no_data [of c rName runMode] e r by auto
    have b: "\<forall>m. map_of (EXPLICIT c) (norm_str (r_resource e)) = Some m \<and> m \<noteq> []
              \<and> (\<forall>x \<in> set m. (case map_of (NODE_META c) (fst x) of None \<Rightarrow> True
                     | Some meta \<Rightarrow> \<not> nodeEligibleByRunMode meta runMode))
         \<longrightarrow> r_options e = [] \<and> r_note e = None"
      using efficiencyEntry_none_eligible [of c rName _ runMode] e r by auto
    show ?thesis using a b by blast
  qed
  show ?thesis using 1 2 by blast
qed

theorem planMaximizeEfficiency_no_candidates_witness:
  "map r_resource (planMaximizeEfficiency example_catalog [''Plastids'', ''Ferrite'', ''Oxium''] ''endless'')
     = [''Plastids'', ''Ferrite'', ''Oxium'']
   \<and> map_of (EXPLICIT example_catalog) (norm_str ''Ferrite'')
       = Some [(''n2'', \<lparr>x_dropScore = 3, x_speedScore = 5, x_isEndless = False\<rparr>)]
   \<and> map_of (NODE_META example_catalog) ''n2'' = Some example_N2
   \<and> \<not> nodeEligibleByRunMode example_N2 ''endless''
   \<and> r_options (planMaximizeEfficiency example_catalog [''Plastids'', ''Ferrite'', ''Oxium''] ''endless'' ! 1) = []
   \<and> r_note (planMaximizeEfficiency example_catalog [''Plastids'', ''Ferrite'', ''Oxium''] ''endless'' ! 1) = None
   \<and> map_of (EXPLICIT example_catalog) (norm_str ''Oxium'') = None
   \<and> r_options (planMaximizeEfficiency example_catalog [''Plastids'', ''Ferrite'', ''Oxium''] ''endless'' ! 2) = []
   \<and> r_note (planMaximizeEfficiency example_catalog [''Plastids'', ''Ferrite'', ''Oxium''] ''endless'' ! 2)
       = Some ''No explicit data for this resource.''"
proof -
  define c where "c = example_catalog"
  define sel where "sel = [''Plastids'', ''Ferrite'', ''Oxium'']"
  define endless where "endless = ''endless''"
  define plan where "plan = planMaximizeEfficiency c sel endless"
  define m where "m = [(''n2'', \<lparr>x_dropScore = 3, x_speedScore = 5, x_isEndless = False\<rparr>)]"
  define nodata where "nodata = ''No explicit data for this resource.''"
  define eF where "eF = plan ! 1"
  define eO where "eO = plan ! 2"
  note inst = planMaximizeEfficiency_no_candidates [of c sel endless, folded plan_def nodata_def]
  have names: "map r_resource plan = sel" using inst by (rule conjunct1)
  have entries: "\<forall>e \<in> set plan.
        (map_of (EXPLICIT c) (norm_str (r_resource e)) = None
           \<or> map_of (EXPLICIT c) (norm_str (r_resource e)) = Some []
         \<longrightarrow> r_options e = [] \<and> r_note e = Some nodata)
      \<and> (\<forall>m. map_of (EXPLICIT c) (norm_str (r_resource e)) = Some m \<and> m \<noteq> []
              \<and> (\<forall>x \<in> set m. (case map_of (NODE_META c) (fst x) of None \<Rightarrow> True
                     | Some meta \<Rightarrow> \<not> nodeEligibleByRunMode meta endless))
         \<longrightarrow> r_options e = [] \<and> r_note e = None)"
    using inst by (rule conjunct2)
  have "length (map r_resource plan) = length sel" using names by (rule arg_cong)
  then have len: "length plan = 3" by (simp add: sel_def)
  have "map r_resource plan ! 1 = r_resource eF" "map r_resource plan ! 2 = r_resource eO"
    using len by (simp_all add: eF_def eO_def)
  then have r: "r_resource eF = ''Ferrite''" "r_resource eO = ''Oxium''"
    unfolding names by (simp_all add: sel_def)
  have mem: "eF \<in> set plan" "eO \<in> set plan" using len by (simp_all add: eF_def eO_def)
  have kF: "map_of (EXPLICIT c) (norm_str ''Ferrite'') = Some m"
    by (simp add: c_def m_def string_eval)
  have kO: "map_of (EXPLICIT c) (norm_str ''Oxium'') = None"
    by (simp add: c_def string_eval)
  have meta: "map_of (NODE_META c) ''n2'' = Some example_N2" by (simp add: c_def)
  have ne: "\<not> nodeEligibleByRunMode example_N2 endless"
    by (simp add: nodeEligibleByRunMode_def endless_def)
  have none: "\<forall>x \<in> set m. (case map_of (NODE_META c) (fst x) of None \<Rightarrow> True
                     | Some meta \<Rightarrow> \<not> nodeEligibleByRunMode meta endless)"
    using ne meta by (simp add: m_def)
  have nonempty: "m \<noteq> []" by (simp add: m_def)
  have kF': "map_of (EXPLICIT c) (norm_str (r_resource eF)) = Some m" using kF r(1) by simp
  have kO': "map_of (EXPLICIT c) (norm_str (r_resource eO)) = None" using kO r(2) by simp
  have F: "r_options eF = [] \<and> r_note eF = None"
    using bspec [OF entries mem(1)] kF' nonempty none by simp
  have O: "r_options eO = [] \<and> r_note eO = Some nodata"
    using bspec [OF entries mem(2)] kO' by simp
  show ?thesis
    using names kF meta ne F kO O
    unfolding c_def sel_def endless_def plan_def m_def nodata_def eF_def eO_def by blast
qed

text \<open>
  Claim C4, as stated, fails for a resource whose records hold no eligible node: ferrite has
  one explicit record, on the non-endless node N2, and in endless mode its entry carries
  no note.
\<close>

theorem planMaximizeEfficiency_no_note_counterexample:
  "map_of (EXPLICIT example_catalog) (norm_str ''Ferrite'')
       = Some [(''n2'', \<lparr>x_dropScore = 3, x_speedScore = 5, x_isEndless = False\<rparr>)]
   \<and> \<not> nodeEligibleByRunMode example_N2 ''endless''
   \<and> planMaximizeEfficiency example_catalog [''Ferrite''] ''endless''
       = [\<lparr>r_resource = ''Ferrite'', r_options = [], r_note = None\<rparr>]"
  by (simp add: planMaximizeEfficiency_def efficiencyEntry_def scoreExplicitStep_def
      nodeEligibleByRunMode_def sortByScoreDesc_Nil pickTopOptions_Nil string_eval)

section \<open>Minimize stops: the loop\<close>

declare stopsLoop.simps [simp del]

lemma stop_option_copy:
  "map (\<lambda>opt. \<lparr>nodeKey = nodeKey opt, score = score opt, o_meta = o_meta opt, o_covered = o_covered opt\<rparr>) tops
     = (tops :: stop_option list)"
  by (induction tops) auto

lemma stopsLoop_unfold:
  "stopsLoop c runMode rDisplay candidates remaining route =
     (if remaining \<noteq> [] \<and> length route < maxStops
      then (case pickTopOptions (sortByScoreDesc (fold (scoreCandidate c runMode rDisplay remaining) candidates [])) 3 of
              [] \<Rightarrow> (remaining, route)
            | best # rest \<Rightarrow>
                stopsLoop c runMode rDisplay candidates
                  (fold (\<lambda>ci rem. set_delete (norm_str (c_resource ci)) rem) (o_covered best) remaining)
                  (route @ [\<lparr>s_options = best # rest\<rparr>]))
      else (remaining, route))"
  by (subst stopsLoop.simps) (simp add: Let_def stop_option_copy split: list.splits)

text \<open>
  The loop rule: a property of \<open>remaining\<close> and \<open>route\<close> that holds at the start and is kept by
  every iteration that selects a step holds of what the loop returns.
\<close>

lemma stopsLoop_invariant:
  assumes init: "I remaining route"
    and step: "\<And>remaining route best rest.
        I remaining route \<Longrightarrow> remaining \<noteq> [] \<Longrightarrow> length route < maxStops \<Longrightarrow>
        pickTopOptions (sortByScoreDesc (fold (scoreCandidate c runMode rDisplay remaining) candidates [])) 3 = best # rest \<Longrightarrow>
        I (fold (\<lambda>ci rem. set_delete (norm_str (c_resource ci)) rem) (o_covered best) remaining)
          (route @ [\<lparr>s_options = best # rest\<rparr>])"
  shows "I (fst (stopsLoop c runMode rDisplay candidates remaining route))
           (snd (stopsLoop c runMode rDisplay candidates remaining route))"
  using init step
proof (induction c runMode rDisplay candidates remaining route rule: stopsLoop.induct)
  case (1 c runMode rDisplay candidates remaining route)
  note init = "1.prems"(1) and step = "1.prems"(2)
  let ?top = "pickTopOptions (sortByScoreDesc (fold (scoreCandidate c runMode rDisplay remaining) candidates [])) 3"
  show ?case
  proof (cases "remaining \<noteq> [] \<and> length route < maxStops")
    case False
    then show ?thesis using init by (subst (1 2) stopsLoop_unfold) auto
  next
    case True
    show ?thesis
    proof (cases ?top)
      case Nil
      then show ?thesis using True init by (subst (1 2) stopsLoop_unfold) auto
    next
      case (Cons best rest)
      let ?rem' = "fold (\<lambda>ci rem. set_delete (norm_str (c_resource ci)) rem) (o_covered best) remaining"
      let ?route' = "route @ [\<lparr>s_options = best # rest\<rparr>]"
      have I': "I ?rem' ?route'"
        using step [OF init _ _ Cons] True by blast
      have "I (fst (stopsLoop c runMode rDisplay candidates ?rem' ?route'))
              (snd (stopsLoop c runMode rDisplay candidates ?rem' ?route'))"
        using "1.IH" [of _ ?top best rest] True Cons I' step
        by (simp add: stop_option_copy)
      then show ?thesis using True Cons by (subst (1 2) stopsLoop_unfold) simp
    qed
  qed
qed

subsection \<open>Who is scored, and what a candidate covers\<close>

lemma scoreCandidate_mem:
  "opt \<in> set (scoreCandidate c runMode rDisplay remaining nKey scored) \<Longrightarrow>
     opt \<in> set scored \<or>
     (nodeKey opt = nKey \<and> map_of (NODE_META c) nKey = Some (o_meta opt)
      \<and> o_covered opt = snd (fold (coverStep c runMode rDisplay nKey (o_meta opt)) remaining (0, [])))"
  by (auto simp: scoreCandidate_def Let_def split: option.splits if_splits)

lemma fold_scoreCandidate_mem:
  "opt \<in> set (fold (scoreCandidate c runMode rDisplay remaining) candidates scored) \<Longrightarrow>
     opt \<in> set scored \<or>
     (nodeKey opt \<in> set candidates \<and> map_of (NODE_META c) (nodeKey opt) = Some (o_meta opt)
      \<and> o_covered opt = snd (fold (coverStep c runMode rDisplay (nodeKey opt) (o_meta opt)) remaining (0, [])))"
proof (induction candidates arbitrary: scored)
  case Nil
  then show ?case by simp
next
  case (Cons nKey candidates)
  have "opt \<in> set (fold (scoreCandidate c runMode rDisplay remaining) candidates
           (scoreCandidate c runMode rDisplay remaining nKey scored))"
    using Cons.prems by simp
  then consider "opt \<in> set (scoreCandidate c runMode rDisplay remaining nKey scored)"
    | "nodeKey opt \<in> set candidates \<and> map_of (NODE_META c) (nodeKey opt) = Some (o_meta opt)
      \<and> o_covered opt = snd (fold (coverStep c runMode rDisplay (nodeKey opt) (o_meta opt)) remaining (0, []))"
    using Cons.IH by blast
  then show ?case
  proof cases
    case 1
    then show ?thesis using scoreCandidate_mem [of opt c runMode rDisplay remaining nKey scored] by auto
  next
    case 2
    then show ?thesis by simp
  qed
qed

lemma top_options_scored:
  assumes "pickTopOptions (sortByScoreDesc (fold (scoreCandidate c runMode rDisplay remaining) candidates [])) 3 = best # rest"
    and "opt \<in> set (best # rest)"
  shows "nodeKey opt \<in> set candidates \<and> map_of (NODE_META c) (nodeKey opt) = Some (o_meta opt)
      \<and> o_covered opt = snd (fold (coverStep c runMode rDisplay (nodeKey opt) (o_meta opt)) remaining (0, []))"
proof -
  let ?scored = "fold (scoreCandidate c runMode rDisplay remaining) candidates []"
  have "opt \<in> set (pickTopOptions (sortByScoreDesc ?scored) 3)" using assms by simp
  then have "opt \<in> set ?scored"
    using pickTopOptions_set [of "sortByScoreDesc ?scored" 3] by (auto simp: set_sortByScoreDesc)
  then show ?thesis using fold_scoreCandidate_mem [of opt c runMode rDisplay remaining candidates "[]"] by simp
qed

lemma coverStep_items:
  assumes "ci \<in> set (snd (coverStep c runMode rDisplay nKey meta rKey acc))"
  shows "ci \<in> set (snd acc) \<or>
     (c_resource ci = displayName rDisplay rKey \<and>
      (case getExplicitScore c rKey nKey of
         Some x \<Rightarrow> c_via ci = ''explicit'' \<and> c_score ci = computeEffScore x runMode (Some meta) \<and> 0 < c_score ci
       | None \<Rightarrow> c_via ci = ''planet'' \<and> planetHasResourceFallback c rKey (m_planetKey meta)))"
  using assms by (auto simp: coverStep_def Let_def split: option.splits if_splits)

lemma fold_coverStep_items:
  assumes "ci \<in> set (snd (fold (coverStep c runMode rDisplay nKey meta) remaining acc))"
  shows "ci \<in> set (snd acc) \<or>
     (\<exists>rKey \<in> set remaining. c_resource ci = displayName rDisplay rKey \<and>
      (case getExplicitScore c rKey nKey of
         Some x \<Rightarrow> c_via ci = ''explicit'' \<and> c_score ci = computeEffScore x runMode (Some meta) \<and> 0 < c_score ci
       | None \<Rightarrow> c_via ci = ''planet'' \<and> planetHasResourceFallback c rKey (m_planetKey meta)))"
  using assms
proof (induction remaining arbitrary: acc)
  case Nil
  then show ?case by simp
next
  case (Cons rKey remaining)
  have "ci \<in> set (snd (fold (coverStep c runMode rDisplay nKey meta) remaining
            (coverStep c runMode rDisplay nKey meta rKey acc)))"
    using Cons.prems by simp
  then consider "ci \<in> set (snd (coverStep c runMode rDisplay nKey meta rKey acc))"
    | "\<exists>rKey \<in> set remaining. c_resource ci = displayName rDisplay rKey \<and>
      (case getExplicitScore c rKey nKey of
         Some x \<Rightarrow> c_via ci = ''explicit'' \<and> c_score ci = computeEffScore x runMode (Some meta) \<and> 0 < c_score ci
       | None \<Rightarrow> c_via ci = ''planet'' \<and> planetHasResourceFallback c rKey (m_planetKey meta))"
    using Cons.IH by blast
  then show ?case
  proof cases
    case 1
    then show ?thesis using coverStep_items [of ci c runMode rDisplay nKey meta rKey acc] by auto
  next
    case 2
    then show ?thesis by auto
  qed
qed

subsection \<open>Only eligible nodes are offered\<close>

lemma candidates_eligible:
  assumes "nKey \<in> set (filter (\<lambda>nKey. case map_of (NODE_META c) nKey of
                              None \<Rightarrow> False
                            | Some meta \<Rightarrow> nodeEligibleByRunMode meta runMode) candidateNodes)"
  shows "\<exists>meta. map_of (NODE_META c) nKey = Some meta \<and> nodeEligibleByRunMode meta runMode"
  using assms by (auto split: option.splits)

lemma stopsLoop_options_eligible:
  assumes cands: "\<forall>nKey \<in> set candidates. \<exists>meta. map_of (NODE_META c) nKey = Some meta \<and> nodeEligibleByRunMode meta runMode"
    and init: "\<forall>step \<in> set route. \<forall>opt \<in> set (s_options step).
            map_of (NODE_META c) (nodeKey opt) = Some (o_meta opt) \<and> nodeEligibleByRunMode (o_meta opt) runMode"
  shows "\<forall>step \<in> set (snd (stopsLoop c runMode rDisplay candidates remaining route)). \<forall>opt \<in> set (s_options step).
            map_of (NODE_META c) (nodeKey opt) = Some (o_meta opt) \<and> nodeEligibleByRunMode (o_meta opt) runMode"
proof -
  let ?I = "\<lambda>(rem :: string list) (route :: route_step list). \<forall>step \<in> set route. \<forall>opt \<in> set (s_options step).
            map_of (NODE_META c) (nodeKey opt) = Some (o_meta opt) \<and> nodeEligibleByRunMode (o_meta opt) runMode"
  have "?I (fst (stopsLoop c runMode rDisplay candidates remaining route))
           (snd (stopsLoop c runMode rDisplay candidates remaining route))"
  proof (rule stopsLoop_invariant [where I = ?I])
    show "?I remaining route" using init .
  next
    fix remaining :: "string list" and route :: "route_step list"
      and best :: stop_option and rest :: "stop_option list"
    assume I: "?I remaining route"
      and top: "pickTopOptions (sortByScoreDesc (fold (scoreCandidate c runMode rDisplay remaining) candidates [])) 3 = best # rest"
    have "map_of (NODE_META c) (nodeKey opt) = Some (o_meta opt) \<and> nodeEligibleByRunMode (o_meta opt) runMode"
      if "opt \<in> set (best # rest)" for opt
    proof -
      have "nodeKey opt \<in> set candidates \<and> map_of (NODE_META c) (nodeKey opt) = Some (o_meta opt)"
        using top_options_scored [OF top that] by simp
      then show ?thesis using cands by auto
    qed
    then show "?I (fold (\<lambda>ci rem. set_delete (norm_str (c_resource ci)) rem) (o_covered best) remaining)
          (route @ [\<lparr>s_options = best # rest\<rparr>])"
      using I by auto
  qed
  then show ?thesis .
qed

lemma planMinimizeStops_options_eligible:
  assumes "step \<in> set (p_route (planMinimizeStops c selectedResources runMode))" and "opt \<in> set (s_options step)"
  shows "map_of (NODE_META c) (nodeKey opt) = Some (o_meta opt) \<and> nodeEligibleByRunMode (o_meta opt) runMode"
proof -
  let ?remaining = "new_Set (map norm_str selectedResources)"
  let ?rDisplay = "new_Map (map (\<lambda>r. (norm_str r, r)) selectedResources)"
  let ?candidateNodes = "fold (\<lambda>rKey cn. case map_of (EXPLICIT c) rKey of
                               None \<Rightarrow> cn
                             | Some m \<Rightarrow> fold set_add (map fst m) cn) ?remaining []"
  let ?candidates = "filter (\<lambda>nKey. case map_of (NODE_META c) nKey of
                              None \<Rightarrow> False
                            | Some meta \<Rightarrow> nodeEligibleByRunMode meta runMode) ?candidateNodes"
  have r: "p_route (planMinimizeStops c selectedResources runMode)
      = snd (stopsLoop c runMode ?rDisplay ?candidates ?remaining [])"
    by (simp add: planMinimizeStops_def Let_def)
  have "\<forall>nKey \<in> set ?candidates. \<exists>meta. map_of (NODE_META c) nKey = Some meta \<and> nodeEligibleByRunMode meta runMode"
    using candidates_eligible by blast
  then have "\<forall>step \<in> set (snd (stopsLoop c runMode ?rDisplay ?candidates ?remaining [])). \<forall>opt \<in> set (s_options step).
            map_of (NODE_META c) (nodeKey opt) = Some (o_meta opt) \<and> nodeEligibleByRunMode (o_meta opt) runMode"
    by (rule stopsLoop_options_eligible) simp
  then show ?thesis using assms r by auto
qed

text \<open>
  Claim C6.  In run mode \<^verbatim>\<open>endless\<close>, every option of every entry of
  \<open>planMaximizeEfficiency\<close> and every option (primary or alternative) of every step of
  \<open>planMinimizeStops\<close> names a node whose metadata is in \<open>NODE_META\<close>, is the metadata attached
  to the option, and has \<open>isEndless\<close> set.  The same holds of everything that is scored at
  all: of the list \<open>scored\<close> built from any explicit map, and of the list \<open>scored\<close> built
  from the filtered candidates for any set of remaining resources.
\<close>

theorem endless_mode_only_endless_nodes:
  assumes "runMode = ''endless''"
  shows "(\<forall>e \<in> set (planMaximizeEfficiency c selectedResources runMode). \<forall>opt \<in> set (r_options e).
            \<exists>meta. map_of (NODE_META c) (nodeKey opt) = Some meta \<and> e_meta opt = Some meta \<and> m_isEndless meta)
       \<and> (\<forall>step \<in> set (p_route (planMinimizeStops c selectedResources runMode)). \<forall>opt \<in> set (s_options step).
            map_of (NODE_META c) (nodeKey opt) = Some (o_meta opt) \<and> m_isEndless (o_meta opt))
       \<and> (\<forall>opt \<in> set (fold (scoreExplicitStep c runMode) explicitMap []).
            \<exists>meta. map_of (NODE_META c) (nodeKey opt) = Some meta \<and> m_isEndless meta)
       \<and> (\<forall>opt \<in> set (fold (scoreCandidate c runMode rDisplay remaining)
                            (filter (\<lambda>nKey. case map_of (NODE_META c) nKey of
                                               None \<Rightarrow> False
                                             | Some meta \<Rightarrow> nodeEligibleByRunMode meta runMode)
                               candidateNodes) []).
            map_of (NODE_META c) (nodeKey opt) = Some (o_meta opt) \<and> m_isEndless (o_meta opt))"
proof -
  have e: "nodeEligibleByRunMode meta runMode \<Longrightarrow> m_isEndless meta" for meta
    using assms by (simp add: nodeEligibleByRunMode_def)
  have 1: "\<exists>meta. map_of (NODE_META c) (nodeKey opt) = Some meta \<and> e_meta opt = Some meta \<and> m_isEndless meta"
    if "en \<in> set (planMaximizeEfficiency c selectedResources runMode)" "opt \<in> set (r_options en)" for en opt
  proof -
    have "en \<in> efficiencyEntry c runMode ` set selectedResources"
      using that(1) by (simp add: planMaximizeEfficiency_def)
    then obtain rName where "en = efficiencyEntry c runMode rName"
      by (rule imageE)
    then show ?thesis
      using efficiencyEntry_options_eligible [of opt c runMode rName] that(2) e by blast
  qed
  have 2: "map_of (NODE_META c) (nodeKey opt) = Some (o_meta opt) \<and> m_isEndless (o_meta opt)"
    if "step \<in> set (p_route (planMinimizeStops c selectedResources runMode))" "opt \<in> set (s_options step)" for step opt
    using planMinimizeStops_options_eligible [OF that] e by blast
  have 3: "\<exists>meta. map_of (NODE_META c) (nodeKey opt) = Some meta \<and> m_isEndless meta"
    if "opt \<in> set (fold (scoreExplicitStep c runMode) explicitMap [])" for opt
    using scoreExplicit_eligible [OF that] e by auto
  have 4: "map_of (NODE_META c) (nodeKey opt) = Some (o_meta opt) \<and> m_isEndless (o_meta opt)"
    if "opt \<in> set (fold (scoreCandidate c runMode rDisplay remaining)
                            (filter (\<lambda>nKey. case map_of (NODE_META c) nKey of
                                               None \<Rightarrow> False
                                             | Some meta \<Rightarrow> nodeEligibleByRunMode meta runMode)
                               candidateNodes) [])" for opt
  proof -
    let ?candidates = "filter (\<lambda>nKey. case map_of (NODE_META c) nKey of
                                               None \<Rightarrow> False
                                             | Some meta \<Rightarrow> nodeEligibleByRunMode meta runMode)
                               candidateNodes"
    have km: "nodeKey opt \<in> set ?candidates \<and> map_of (NODE_META c) (nodeKey opt) = Some (o_meta opt)"
      using fold_scoreCandidate_mem [OF that] by (simp del: set_filter)
    then have k: "nodeKey opt \<in> set ?candidates" and m: "map_of (NODE_META c) (nodeKey opt) = Some (o_meta opt)"
      by (rule conjunct1, rule conjunct2)
    obtain meta where "map_of (NODE_META c) (nodeKey opt) = Some meta" "nodeEligibleByRunMode meta runMode"
      using candidates_eligible [OF k] by blast
    then show ?thesis using m e by simp
  qed
  show ?thesis using 1 2 3 4 by blast
qed

theorem endless_mode_only_endless_nodes_witness:
  "planMaximizeEfficiency example_catalog [''Plastids'', ''Rubedo''] ''endless''
     = [\<lparr>r_resource = ''Plastids'',
          r_options = [\<lparr>nodeKey = ''n1'', score = 5, e_meta = Some example_N1\<rparr>], r_note = None\<rparr>,
        \<lparr>r_resource = ''Rubedo'',
          r_options = [\<lparr>nodeKey = ''n1'', score = 0, e_meta = Some example_N1\<rparr>], r_note = None\<rparr>]
   \<and> planMinimizeStops example_catalog [''Plastids'', ''Rubedo''] ''endless''
     = \<lparr>p_route = [\<lparr>s_options = [\<lparr>nodeKey = ''n1'', score = 5, o_meta = example_N1,
          o_covered = [\<lparr>c_resource = ''Plastids'', c_via = ''explicit'', c_score = 5\<rparr>]\<rparr>]\<rparr>],
        p_missing = [''Rubedo'']\<rparr>
   \<and> (\<exists>meta. e_meta (hd (r_options (hd (planMaximizeEfficiency example_catalog [''Plastids'', ''Rubedo''] ''endless''))))
                = Some meta \<and> m_isEndless meta)
   \<and> m_isEndless (o_meta (hd (s_options (hd (p_route
         (planMinimizeStops example_catalog [''Plastids'', ''Rubedo''] ''endless''))))))"
proof -
  let ?sel = "[''Plastids'', ''Rubedo'']"
  let ?eff = "planMaximizeEfficiency example_catalog ?sel ''endless''"
  let ?plan = "planMinimizeStops example_catalog ?sel ''endless''"
  have ev1: "?eff
     = [\<lparr>r_resource = ''Plastids'',
          r_options = [\<lparr>nodeKey = ''n1'', score = 5, e_meta = Some example_N1\<rparr>], r_note = None\<rparr>,
        \<lparr>r_resource = ''Rubedo'',
          r_options = [\<lparr>nodeKey = ''n1'', score = 0, e_meta = Some example_N1\<rparr>], r_note = None\<rparr>]"
    by code_simp
  have ev2: "?plan
     = \<lparr>p_route = [\<lparr>s_options = [\<lparr>nodeKey = ''n1'', score = 5, o_meta = example_N1,
          o_covered = [\<lparr>c_resource = ''Plastids'', c_via = ''explicit'', c_score = 5\<rparr>]\<rparr>]\<rparr>],
        p_missing = [''Rubedo'']\<rparr>"
    by code_simp
  note inst = endless_mode_only_endless_nodes [OF refl, of example_catalog ?sel "[]" "[]" "[]" "[]"]
  have m1: "hd ?eff \<in> set ?eff" by (simp add: ev1)
  have m2: "hd (r_options (hd ?eff)) \<in> set (r_options (hd ?eff))" by (simp add: ev1)
  have m3: "hd (p_route ?plan) \<in> set (p_route ?plan)" by (simp add: ev2)
  have m4: "hd (s_options (hd (p_route ?plan))) \<in> set (s_options (hd (p_route ?plan)))" by (simp add: ev2)
  have 3: "\<exists>meta. e_meta (hd (r_options (hd ?eff))) = Some meta \<and> m_isEndless meta"
    using bspec [OF bspec [OF conjunct1 [OF inst] m1] m2] by blast
  have 4: "m_isEndless (o_meta (hd (s_options (hd (p_route ?plan)))))"
    using bspec [OF bspec [OF conjunct1 [OF conjunct2 [OF inst]] m3] m4] by (rule conjunct2)
  show ?thesis using ev1 ev2 3 4 by (intro conjI)
qed

subsection \<open>The stop bound and the missing resources\<close>

lemma stopsLoop_bound_and_remaining:
  fixes keys :: "string list"
  defines "Cov \<equiv> \<lambda>route :: route_step list.
             (\<Union>step \<in> set route. norm_str ` c_resource ` set (o_covered (hd (s_options step))))"
  assumes init: "length route \<le> maxStops" "\<forall>step \<in> set route. s_options step \<noteq> []"
      "remaining = filter (\<lambda>k. k \<notin> Cov route) keys"
  shows "length (snd (stopsLoop c runMode rDisplay candidates remaining route)) \<le> maxStops
     \<and> (\<forall>step \<in> set (snd (stopsLoop c runMode rDisplay candidates remaining route)). s_options step \<noteq> [])
     \<and> fst (stopsLoop c runMode rDisplay candidates remaining route)
         = filter (\<lambda>k. k \<notin> Cov (snd (stopsLoop c runMode rDisplay candidates remaining route))) keys"
proof -
  let ?I = "\<lambda>(rem :: string list) (route :: route_step list).
      length route \<le> maxStops \<and> (\<forall>step \<in> set route. s_options step \<noteq> [])
      \<and> rem = filter (\<lambda>k. k \<notin> Cov route) keys"
  have "?I (fst (stopsLoop c runMode rDisplay candidates remaining route))
           (snd (stopsLoop c runMode rDisplay candidates remaining route))"
  proof (rule stopsLoop_invariant [where I = ?I])
    show "?I remaining route" using init by simp
  next
    fix remaining :: "string list" and route :: "route_step list"
      and best :: stop_option and rest :: "stop_option list"
    assume I: "?I remaining route" and len: "length route < maxStops"
    let ?B = "norm_str ` c_resource ` set (o_covered best)"
    let ?route' = "route @ [\<lparr>s_options = best # rest\<rparr>]"
    have cov: "Cov ?route' = Cov route \<union> ?B"
      by (auto simp: Cov_def)
    have "fold (\<lambda>ci rem. set_delete (norm_str (c_resource ci)) rem) (o_covered best) remaining
        = filter (\<lambda>k. k \<notin> ?B) remaining"
      using fold_set_delete [of "\<lambda>ci. norm_str (c_resource ci)" "o_covered best" remaining]
      by (simp add: image_image)
    also have "\<dots> = filter (\<lambda>k. k \<notin> ?B) (filter (\<lambda>k. k \<notin> Cov route) keys)"
      using I by simp
    also have "\<dots> = filter (\<lambda>k. k \<notin> Cov ?route') keys"
      unfolding cov by (induction keys) auto
    finally have rem: "fold (\<lambda>ci rem. set_delete (norm_str (c_resource ci)) rem) (o_covered best) remaining
        = filter (\<lambda>k. k \<notin> Cov ?route') keys" .
    have "length ?route' \<le> maxStops" using len by simp
    moreover have "\<forall>step \<in> set ?route'. s_options step \<noteq> []" using I by auto
    ultimately show "?I (fold (\<lambda>ci rem. set_delete (norm_str (c_resource ci)) rem) (o_covered best) remaining) ?route'"
      using rem by blast
  qed
  then show ?thesis by blast
qed

subsection \<open>The primary choice is the top-scoring candidate\<close>

lemma sorted_insort_desc:
  "sorted_wrt (\<lambda>a b. score b \<le> score a) ys
     \<Longrightarrow> sorted_wrt (\<lambda>a b. score b \<le> score a) (insort_cmp (\<lambda>a b. score b - score a) x ys)"
proof (induction ys)
  case Nil
  then show ?case by simp
next
  case (Cons y ys)
  show ?case
  proof (cases "score y - score x \<le> 0")
    case True
    then have "\<forall>z \<in> set (y # ys). score z \<le> score x" using Cons.prems by auto
    then show ?thesis using True Cons.prems by simp
  next
    case False
    have "sorted_wrt (\<lambda>a b. score b \<le> score a) (insort_cmp (\<lambda>a b. score b - score a) x ys)"
      using Cons by simp
    moreover have "\<forall>z \<in> set (insort_cmp (\<lambda>a b. score b - score a) x ys). score z \<le> score y"
      using False Cons.prems by (auto simp: set_insort_cmp)
    ultimately show ?thesis using False by simp
  qed
qed

lemma sorted_sortByScoreDesc:
  "sorted_wrt (\<lambda>a b. score b \<le> score a) (sortByScoreDesc xs)"
  unfolding sortByScoreDesc_def sort_cmp_def
  by (induction xs) (simp_all add: sorted_insort_desc)

lemma sorted_desc_hd_max:
  "sorted_wrt (\<lambda>a b. score b \<le> score a) xs \<Longrightarrow> x \<in> set xs \<Longrightarrow> score x \<le> score (hd xs)"
  by (cases xs) auto

lemma pickTopOptions_sorted:
  "sorted_wrt (\<lambda>a b. score b \<le> score a) xs
     \<Longrightarrow> sorted_wrt (\<lambda>a b. score b \<le> score a) (pickTopOptions xs m)"
  using pickTopOptions_subseq by (rule sorted_wrt_subseq)

text \<open>On a list in descending order, the first item picked is the first item of the list.\<close>

lemma pickTopOptions_hd:
  assumes sorted: "sorted_wrt (\<lambda>a b. score b \<le> score a) xs"
    and picked: "pickTopOptions xs m = best # rest"
  shows "best = hd xs"
proof (cases xs)
  case Nil
  then show ?thesis using picked by (simp add: pickTopOptions_def)
next
  case (Cons first tl)
  have loop: "pickLoop (score first) m (first # tl) [] = best # rest"
    using picked Cons by (simp add: pickTopOptions_def del: pickLoop.simps)
  have m: "\<not> m \<le> 0"
  proof
    assume "m \<le> 0"
    then have "pickLoop (score first) m (first # tl) [] = []" by simp
    then show False using loop by simp
  qed
  show ?thesis
  proof (cases "score first \<ge> score first * 0.9")
    case True
    obtain ys where "pickLoop (score first) m tl [first] = [first] @ ys"
      using pickLoop_append [of "score first" m tl "[first]"] by blast
    then have "pickLoop (score first) m (first # tl) [] = first # ys"
      using True m by simp
    then show ?thesis using loop Cons by simp
  next
    case False
    obtain ys where ys: "pickLoop (score first) m tl [] = [] @ ys" "subseq ys tl"
        "\<forall>y \<in> set ys. score y \<ge> score first * 0.9"
      using pickLoop_append [of "score first" m tl "[]"] by blast
    have "pickLoop (score first) m (first # tl) [] = ys"
      using False m ys(1) by simp
    then have b: "best \<in> set ys" using loop by auto
    then have "best \<in> set tl" using ys(2) subseq_set_subset by blast
    then have "score best \<le> score first" using sorted Cons by auto
    moreover have "score best \<ge> score first * 0.9" using ys(3) b by blast
    ultimately have "score first \<ge> score first * 0.9" by simp
    then show ?thesis using False by simp
  qed
qed

lemma top_is_top_scoring:
  assumes "pickTopOptions (sortByScoreDesc scored) 3 = best # rest"
  shows "sorted_wrt (\<lambda>a b. score b \<le> score a) (best # rest)
    \<and> (\<forall>opt \<in> set (best # rest). score opt \<le> score best)
    \<and> best \<in> set scored
    \<and> (\<forall>x \<in> set scored. score x \<le> score best)"
proof -
  have s: "sorted_wrt (\<lambda>a b. score b \<le> score a) (sortByScoreDesc scored)"
    by (rule sorted_sortByScoreDesc)
  have 1: "sorted_wrt (\<lambda>a b. score b \<le> score a) (best # rest)"
    using pickTopOptions_sorted [OF s, of 3] assms by simp
  then have 2: "\<forall>opt \<in> set (best # rest). score opt \<le> score best" by auto
  have h: "best = hd (sortByScoreDesc scored)" using s assms by (rule pickTopOptions_hd)
  have "best \<in> set (pickTopOptions (sortByScoreDesc scored) 3)" using assms by simp
  then have 3: "best \<in> set scored"
    using pickTopOptions_set [of "sortByScoreDesc scored" 3] by (auto simp: set_sortByScoreDesc)
  have 4: "\<forall>x \<in> set scored. score x \<le> score best"
    using sorted_desc_hd_max [OF s] h by (simp add: set_sortByScoreDesc)
  show ?thesis using 1 2 3 4 by blast
qed

lemma covered_by_primary_snoc:
  "(\<Union>step \<in> set (route @ [\<lparr>s_options = best # rest\<rparr>]).
       norm_str ` c_resource ` set (o_covered (hd (s_options step))))
     = (\<Union>step \<in> set route. norm_str ` c_resource ` set (o_covered (hd (s_options step))))
       \<union> norm_str ` c_resource ` set (o_covered best)"
  by auto

lemma stopsLoop_primary_top:
  fixes keys :: "string list" and c :: catalog and runMode :: string
    and rDisplay :: "(string \<times> string) list" and candidates :: "string list"
  defines "Cov \<equiv> \<lambda>route :: route_step list.
             (\<Union>step \<in> set route. norm_str ` c_resource ` set (o_covered (hd (s_options step))))"
  defines "scoredAt \<equiv> \<lambda>(route :: route_step list) i.
             fold (scoreCandidate c runMode rDisplay (filter (\<lambda>k. k \<notin> Cov (take i route)) keys)) candidates []"
  shows "\<forall>i < length (snd (stopsLoop c runMode rDisplay candidates keys [])).
           s_options (snd (stopsLoop c runMode rDisplay candidates keys []) ! i)
             = pickTopOptions (sortByScoreDesc (scoredAt (snd (stopsLoop c runMode rDisplay candidates keys [])) i)) 3
         \<and> sorted_wrt (\<lambda>a b. score b \<le> score a) (s_options (snd (stopsLoop c runMode rDisplay candidates keys []) ! i))
         \<and> hd (s_options (snd (stopsLoop c runMode rDisplay candidates keys []) ! i))
             \<in> set (scoredAt (snd (stopsLoop c runMode rDisplay candidates keys [])) i)
         \<and> (\<forall>x \<in> set (scoredAt (snd (stopsLoop c runMode rDisplay candidates keys [])) i).
               score x \<le> score (hd (s_options (snd (stopsLoop c runMode rDisplay candidates keys []) ! i))))"
proof -
  let ?P = "\<lambda>(route :: route_step list) i.
      s_options (route ! i) = pickTopOptions (sortByScoreDesc (scoredAt route i)) 3
      \<and> sorted_wrt (\<lambda>a b. score b \<le> score a) (s_options (route ! i))
      \<and> hd (s_options (route ! i)) \<in> set (scoredAt route i)
      \<and> (\<forall>x \<in> set (scoredAt route i). score x \<le> score (hd (s_options (route ! i))))"
  let ?I = "\<lambda>(rem :: string list) (route :: route_step list).
      rem = filter (\<lambda>k. k \<notin> Cov route) keys \<and> (\<forall>i < length route. ?P route i)"
  have "?I (fst (stopsLoop c runMode rDisplay candidates keys []))
           (snd (stopsLoop c runMode rDisplay candidates keys []))"
  proof (rule stopsLoop_invariant [where I = ?I])
    show "?I keys []" by (simp add: Cov_def)
  next
    fix remaining :: "string list" and route :: "route_step list"
      and best :: stop_option and rest :: "stop_option list"
    assume I: "?I remaining route"
      and top: "pickTopOptions (sortByScoreDesc (fold (scoreCandidate c runMode rDisplay remaining) candidates [])) 3 = best # rest"
    let ?B = "norm_str ` c_resource ` set (o_covered best)"
    let ?route' = "route @ [\<lparr>s_options = best # rest\<rparr>]"
    have cov: "Cov ?route' = Cov route \<union> ?B"
      unfolding Cov_def by (rule covered_by_primary_snoc)
    have "fold (\<lambda>ci rem. set_delete (norm_str (c_resource ci)) rem) (o_covered best) remaining
        = filter (\<lambda>k. k \<notin> ?B) remaining"
      using fold_set_delete [of "\<lambda>ci. norm_str (c_resource ci)" "o_covered best" remaining]
      by (simp add: image_image)
    also have "\<dots> = filter (\<lambda>k. k \<notin> ?B) (filter (\<lambda>k. k \<notin> Cov route) keys)"
      using I by simp
    also have "\<dots> = filter (\<lambda>k. k \<notin> Cov ?route') keys"
      unfolding cov by (induction keys) auto
    finally have rem: "fold (\<lambda>ci rem. set_delete (norm_str (c_resource ci)) rem) (o_covered best) remaining
        = filter (\<lambda>k. k \<notin> Cov ?route') keys" .
    have old: "?P ?route' i" if "i < length route" for i
    proof -
      have "take i ?route' = take i route" using that by simp
      then have e1: "scoredAt ?route' i = scoredAt route i" by (simp add: scoredAt_def)
      have e2: "?route' ! i = route ! i" using that by (simp add: nth_append)
      have p: "?P route i" using I that by blast
      show ?thesis unfolding e1 e2 using p .
    qed
    have new: "?P ?route' (length route)"
    proof -
      have "scoredAt ?route' (length route) = fold (scoreCandidate c runMode rDisplay remaining) candidates []"
        using I by (simp add: scoredAt_def)
      moreover have "s_options (?route' ! length route) = best # rest" by simp
      ultimately show ?thesis using top top_is_top_scoring [OF top] by (simp del: sorted_wrt.simps)
    qed
    have "?P ?route' i" if "i < length ?route'" for i
    proof (cases "i < length route")
      case True
      then show ?thesis by (rule old)
    next
      case False
      then have "i = length route" using that by simp
      then show ?thesis using new by simp
    qed
    then show "?I (fold (\<lambda>ci rem. set_delete (norm_str (c_resource ci)) rem) (o_covered best) remaining) ?route'"
      using rem by blast
  qed
  then show ?thesis by blast
qed

text \<open>
  Claim C5.  \<open>planMinimizeStops\<close> is a total function (the loop is defined with its
  termination proof).  Its route has at most 6 steps, each with a primary choice; the keys
  of the missing resources are exactly the requested keys not covered by the primary
  choice of any step; and when the requested names have different keys, \<open>missing\<close> is the
  list of the requested names, in order, that no primary choice covers.  The primary choice
  is the top-scoring one: the options of every step are in descending order of score, so
  no option of the step scores more than the first; and the options of step \<open>i\<close> are the
  close-score group of the sorted list of all candidates scored against the resources that
  the primary choices of the earlier steps left uncovered, the first option being one of
  these candidates and no candidate scoring more than it.
\<close>

theorem planMinimizeStops_bound_and_missing:
  "length (p_route (planMinimizeStops c selectedResources runMode)) \<le> 6
   \<and> (\<forall>step \<in> set (p_route (planMinimizeStops c selectedResources runMode)). s_options step \<noteq> [])
   \<and> norm_str ` set (p_missing (planMinimizeStops c selectedResources runMode))
       = norm_str ` set selectedResources
         - (\<Union>step \<in> set (p_route (planMinimizeStops c selectedResources runMode)).
              norm_str ` c_resource ` set (o_covered (hd (s_options step))))
   \<and> (distinct (map norm_str selectedResources) \<longrightarrow>
        p_missing (planMinimizeStops c selectedResources runMode)
          = filter (\<lambda>r. norm_str r \<notin>
              (\<Union>step \<in> set (p_route (planMinimizeStops c selectedResources runMode)).
                 norm_str ` c_resource ` set (o_covered (hd (s_options step))))) selectedResources)
   \<and> (let route = p_route (planMinimizeStops c selectedResources runMode);
           keys = new_Set (map norm_str selectedResources);
           rDisplay = new_Map (map (\<lambda>r. (norm_str r, r)) selectedResources);
           candidates =
             filter (\<lambda>nKey. case map_of (NODE_META c) nKey of
                               None \<Rightarrow> False
                             | Some meta \<Rightarrow> nodeEligibleByRunMode meta runMode)
               (fold (\<lambda>rKey cn. case map_of (EXPLICIT c) rKey of
                                   None \<Rightarrow> cn
                                 | Some m \<Rightarrow> fold set_add (map fst m) cn) keys []);
           scoredAt = (\<lambda>i. fold (scoreCandidate c runMode rDisplay
                               (filter (\<lambda>k. k \<notin> (\<Union>step \<in> set (take i route).
                                           norm_str ` c_resource ` set (o_covered (hd (s_options step)))))
                                  keys))
                             candidates [])
       in (\<forall>step \<in> set route.
             sorted_wrt (\<lambda>a b. score b \<le> score a) (s_options step)
             \<and> (\<forall>opt \<in> set (s_options step). score opt \<le> score (hd (s_options step))))
          \<and> (\<forall>i < length route.
               s_options (route ! i) = pickTopOptions (sortByScoreDesc (scoredAt i)) 3
               \<and> hd (s_options (route ! i)) \<in> set (scoredAt i)
               \<and> (\<forall>x \<in> set (scoredAt i). score x \<le> score (hd (s_options (route ! i))))))"
proof -
  let ?keys = "new_Set (map norm_str selectedResources)"
  let ?rDisplay = "new_Map (map (\<lambda>r. (norm_str r, r)) selectedResources)"
  let ?candidateNodes = "fold (\<lambda>rKey cn. case map_of (EXPLICIT c) rKey of
                               None \<Rightarrow> cn
                             | Some m \<Rightarrow> fold set_add (map fst m) cn) ?keys []"
  let ?candidates = "filter (\<lambda>nKey. case map_of (NODE_META c) nKey of
                              None \<Rightarrow> False
                            | Some meta \<Rightarrow> nodeEligibleByRunMode meta runMode) ?candidateNodes"
  let ?fin = "stopsLoop c runMode ?rDisplay ?candidates ?keys []"
  let ?plan = "planMinimizeStops c selectedResources runMode"
  let ?Cov = "\<Union>step \<in> set (p_route ?plan). norm_str ` c_resource ` set (o_covered (hd (s_options step)))"
  let ?scoredAt = "\<lambda>i. fold (scoreCandidate c runMode ?rDisplay
                               (filter (\<lambda>k. k \<notin> (\<Union>step \<in> set (take i (p_route ?plan)).
                                           norm_str ` c_resource ` set (o_covered (hd (s_options step)))))
                                  ?keys))
                             ?candidates []"
  have route: "p_route ?plan = snd ?fin"
    by (simp add: planMinimizeStops_def Let_def)
  have missing: "p_missing ?plan = map (displayName ?rDisplay) (fst ?fin)"
    by (simp add: planMinimizeStops_def Let_def)
  have loop: "length (snd ?fin) \<le> maxStops \<and> (\<forall>step \<in> set (snd ?fin). s_options step \<noteq> [])
     \<and> fst ?fin = filter (\<lambda>k. k \<notin> (\<Union>step \<in> set (snd ?fin). norm_str ` c_resource ` set (o_covered (hd (s_options step))))) ?keys"
    by (rule stopsLoop_bound_and_remaining) simp_all
  have 1: "length (p_route ?plan) \<le> 6" using loop route by (simp add: maxStops_def)
  have 2: "\<forall>step \<in> set (p_route ?plan). s_options step \<noteq> []" using loop route by simp
  have rem: "fst ?fin = filter (\<lambda>k. k \<notin> ?Cov) ?keys" using loop route by simp
  have nd: "norm_str (displayName ?rDisplay k) = k" if "k \<in> set ?keys" for k
  proof -
    have "norm_str k = k" using that by (auto simp: set_new_Set norm_str_idem)
    then show ?thesis by (rule norm_displayName)
  qed
  have "norm_str ` set (p_missing ?plan) = (\<lambda>k. norm_str (displayName ?rDisplay k)) ` set (fst ?fin)"
    unfolding missing by (simp add: image_image)
  also have "\<dots> = set (fst ?fin)"
    using nd rem by force
  also have "\<dots> = norm_str ` set selectedResources - ?Cov"
    unfolding rem by (auto simp: set_new_Set)
  finally have 3: "norm_str ` set (p_missing ?plan) = norm_str ` set selectedResources - ?Cov" .
  have 4: "p_missing ?plan = filter (\<lambda>r. norm_str r \<notin> ?Cov) selectedResources"
    if d: "distinct (map norm_str selectedResources)"
  proof -
    have "fst ?fin = filter (\<lambda>k. k \<notin> ?Cov) (map norm_str selectedResources)"
      using rem new_Set_distinct [OF d] by simp
    also have "\<dots> = map norm_str (filter (\<lambda>r. norm_str r \<notin> ?Cov) selectedResources)"
      by (simp add: filter_map comp_def)
    finally have "p_missing ?plan
        = map (\<lambda>r. displayName ?rDisplay (norm_str r)) (filter (\<lambda>r. norm_str r \<notin> ?Cov) selectedResources)"
      unfolding missing by (simp add: comp_def)
    also have "\<dots> = map (\<lambda>r. r) (filter (\<lambda>r. norm_str r \<notin> ?Cov) selectedResources)"
      by (rule map_cong) (auto simp: displayName_distinct [OF d])
    finally show ?thesis by simp
  qed
  have top: "\<forall>i < length (p_route ?plan).
           s_options (p_route ?plan ! i) = pickTopOptions (sortByScoreDesc (?scoredAt i)) 3
         \<and> sorted_wrt (\<lambda>a b. score b \<le> score a) (s_options (p_route ?plan ! i))
         \<and> hd (s_options (p_route ?plan ! i)) \<in> set (?scoredAt i)
         \<and> (\<forall>x \<in> set (?scoredAt i). score x \<le> score (hd (s_options (p_route ?plan ! i))))"
    unfolding route by (rule stopsLoop_primary_top)
  have 5: "sorted_wrt (\<lambda>a b. score b \<le> score a) (s_options step)
             \<and> (\<forall>opt \<in> set (s_options step). score opt \<le> score (hd (s_options step)))"
    if mem: "step \<in> set (p_route ?plan)" for step
  proof -
    obtain i where "i < length (p_route ?plan)" "step = p_route ?plan ! i"
      using mem unfolding in_set_conv_nth by blast
    then have s: "sorted_wrt (\<lambda>a b. score b \<le> score a) (s_options step)" using top by blast
    then show ?thesis using sorted_desc_hd_max [OF s] by blast
  qed
  have 6: "\<forall>i < length (p_route ?plan).
           s_options (p_route ?plan ! i) = pickTopOptions (sortByScoreDesc (?scoredAt i)) 3
         \<and> hd (s_options (p_route ?plan ! i)) \<in> set (?scoredAt i)
         \<and> (\<forall>x \<in> set (?scoredAt i). score x \<le> score (hd (s_options (p_route ?plan ! i))))"
    using top by blast
  have 56: "(\<forall>step \<in> set (p_route ?plan).
             sorted_wrt (\<lambda>a b. score b \<le> score a) (s_options step)
             \<and> (\<forall>opt \<in> set (s_options step). score opt \<le> score (hd (s_options step))))
          \<and> (\<forall>i < length (p_route ?plan).
               s_options (p_route ?plan ! i) = pickTopOptions (sortByScoreDesc (?scoredAt i)) 3
               \<and> hd (s_options (p_route ?plan ! i)) \<in> set (?scoredAt i)
               \<and> (\<forall>x \<in> set (?scoredAt i). score x \<le> score (hd (s_options (p_route ?plan ! i)))))"
    using 5 6 by blast
  show ?thesis
    unfolding Let_def using 1 2 3 4 56 by blast
qed

theorem planMinimizeStops_bound_and_missing_witness:
  "planMinimizeStops example_catalog [''Plastids'', ''Rubedo''] ''endless''
     = \<lparr>p_route = [\<lparr>s_options = [\<lparr>nodeKey = ''n1'', score = 5, o_meta = example_N1,
          o_covered = [\<lparr>c_resource = ''Plastids'', c_via = ''explicit'', c_score = 5\<rparr>]\<rparr>]\<rparr>],
        p_missing = [''Rubedo'']\<rparr>
   \<and> distinct (map norm_str [''Plastids'', ''Rubedo''])
   \<and> length (p_route (planMinimizeStops example_catalog [''Plastids'', ''Rubedo''] ''endless'')) \<le> 6
   \<and> s_options (hd (p_route (planMinimizeStops example_catalog [''Plastids'', ''Rubedo''] ''endless''))) \<noteq> []
   \<and> norm_str ` set (p_missing (planMinimizeStops example_catalog [''Plastids'', ''Rubedo''] ''endless''))
       = norm_str ` set [''Plastids'', ''Rubedo''] - {''plastids''}
   \<and> p_missing (planMinimizeStops example_catalog [''Plastids'', ''Rubedo''] ''endless'')
       = filter (\<lambda>r. norm_str r \<notin> {''plastids''}) [''Plastids'', ''Rubedo'']
   \<and> planMinimizeStops example_catalog [''Plastids'', ''Rubedo''] ''quick''
     = \<lparr>p_route = [\<lparr>s_options = [\<lparr>nodeKey = ''n2'', score = 42 / 5, o_meta = example_N2,
          o_covered = [\<lparr>c_resource = ''Plastids'', c_via = ''planet'', c_score = 14 / 5\<rparr>,
                       \<lparr>c_resource = ''Rubedo'', c_via = ''explicit'', c_score = 28 / 5\<rparr>]\<rparr>]\<rparr>],
        p_missing = []\<rparr>
   \<and> fold (scoreCandidate example_catalog ''quick''
              (new_Map (map (\<lambda>r. (norm_str r, r)) [''Plastids'', ''Rubedo'']))
              [''plastids'', ''rubedo'']) [''n1'', ''n2''] []
     = [\<lparr>nodeKey = ''n1'', score = 189 / 50, o_meta = example_N1,
          o_covered = [\<lparr>c_resource = ''Plastids'', c_via = ''explicit'', c_score = 189 / 50\<rparr>]\<rparr>,
        \<lparr>nodeKey = ''n2'', score = 42 / 5, o_meta = example_N2,
          o_covered = [\<lparr>c_resource = ''Plastids'', c_via = ''planet'', c_score = 14 / 5\<rparr>,
                       \<lparr>c_resource = ''Rubedo'', c_via = ''explicit'', c_score = 28 / 5\<rparr>]\<rparr>]
   \<and> sorted_wrt (\<lambda>a b. score b \<le> score a)
        (s_options (hd (p_route (planMinimizeStops example_catalog [''Plastids'', ''Rubedo''] ''quick''))))
   \<and> s_options (p_route (planMinimizeStops example_catalog [''Plastids'', ''Rubedo''] ''quick'') ! 0)
       = pickTopOptions (sortByScoreDesc
           [\<lparr>nodeKey = ''n1'', score = 189 / 50, o_meta = example_N1,
              o_covered = [\<lparr>c_resource = ''Plastids'', c_via = ''explicit'', c_score = 189 / 50\<rparr>]\<rparr>,
            \<lparr>nodeKey = ''n2'', score = 42 / 5, o_meta = example_N2,
              o_covered = [\<lparr>c_resource = ''Plastids'', c_via = ''planet'', c_score = 14 / 5\<rparr>,
                           \<lparr>c_resource = ''Rubedo'', c_via = ''explicit'', c_score = 28 / 5\<rparr>]\<rparr>]) 3
   \<and> score \<lparr>nodeKey = ''n1'', score = 189 / 50, o_meta = example_N1,
          o_covered = [\<lparr>c_resource = ''Plastids'', c_via = ''explicit'', c_score = 189 / 50\<rparr>]\<rparr>
       \<le> score (hd (s_options (p_route (planMinimizeStops example_catalog [''Plastids'', ''Rubedo''] ''quick'') ! 0)))
   \<and> nodeKey (hd (s_options (p_route (planMinimizeStops example_catalog [''Plastids'', ''Rubedo''] ''quick'') ! 0)))
       = ''n2''"
proof -
  let ?sel = "[''Plastids'', ''Rubedo'']"
  let ?plan = "planMinimizeStops example_catalog ?sel ''endless''"
  let ?Cov = "\<Union>step \<in> set (p_route ?plan). norm_str ` c_resource ` set (o_covered (hd (s_options step)))"
  have ev: "?plan
     = \<lparr>p_route = [\<lparr>s_options = [\<lparr>nodeKey = ''n1'', score = 5, o_meta = example_N1,
          o_covered = [\<lparr>c_resource = ''Plastids'', c_via = ''explicit'', c_score = 5\<rparr>]\<rparr>]\<rparr>],
        p_missing = [''Rubedo'']\<rparr>"
    by code_simp
  have d: "distinct (map norm_str ?sel)" by (simp add: string_eval)
  have cov: "?Cov = {''plastids''}" by (simp add: ev string_eval)
  have m: "hd (p_route ?plan) \<in> set (p_route ?plan)" by (simp add: ev)
  note inst = planMinimizeStops_bound_and_missing [of example_catalog ?sel "''endless''"]
  have 1: "length (p_route ?plan) \<le> 6" using inst by (rule conjunct1)
  have 2: "s_options (hd (p_route ?plan)) \<noteq> []"
    using bspec [OF conjunct1 [OF conjunct2 [OF inst]] m] .
  have 3: "norm_str ` set (p_missing ?plan) = norm_str ` set ?sel - ?Cov"
    using conjunct1 [OF conjunct2 [OF conjunct2 [OF inst]]] .
  have 4: "p_missing ?plan = filter (\<lambda>r. norm_str r \<notin> ?Cov) ?sel"
    using mp [OF conjunct1 [OF conjunct2 [OF conjunct2 [OF conjunct2 [OF inst]]]] d] .
  let ?planq = "planMinimizeStops example_catalog ?sel ''quick''"
  let ?n1 = "\<lparr>nodeKey = ''n1'', score = 189 / 50, o_meta = example_N1,
          o_covered = [\<lparr>c_resource = ''Plastids'', c_via = ''explicit'', c_score = 189 / 50\<rparr>]\<rparr>"
  let ?n2 = "\<lparr>nodeKey = ''n2'', score = 42 / 5, o_meta = example_N2,
          o_covered = [\<lparr>c_resource = ''Plastids'', c_via = ''planet'', c_score = 14 / 5\<rparr>,
                       \<lparr>c_resource = ''Rubedo'', c_via = ''explicit'', c_score = 28 / 5\<rparr>]\<rparr>"
  let ?keys = "new_Set (map norm_str ?sel)"
  let ?rDisplay = "new_Map (map (\<lambda>r. (norm_str r, r)) ?sel)"
  let ?candidates = "filter (\<lambda>nKey. case map_of (NODE_META example_catalog) nKey of
                              None \<Rightarrow> False
                            | Some meta \<Rightarrow> nodeEligibleByRunMode meta ''quick'')
                       (fold (\<lambda>rKey cn. case map_of (EXPLICIT example_catalog) rKey of
                               None \<Rightarrow> cn
                             | Some m \<Rightarrow> fold set_add (map fst m) cn) ?keys [])"
  let ?scoredAt = "\<lambda>i. fold (scoreCandidate example_catalog ''quick'' ?rDisplay
                               (filter (\<lambda>k. k \<notin> (\<Union>step \<in> set (take i (p_route ?planq)).
                                           norm_str ` c_resource ` set (o_covered (hd (s_options step)))))
                                  ?keys))
                             ?candidates []"
  have evq: "?planq = \<lparr>p_route = [\<lparr>s_options = [?n2]\<rparr>], p_missing = []\<rparr>"
    by code_simp
  have cands: "?candidates = [''n1'', ''n2'']" by code_simp
  have sc: "fold (scoreCandidate example_catalog ''quick'' ?rDisplay [''plastids'', ''rubedo''])
              [''n1'', ''n2''] [] = [?n1, ?n2]"
    by code_simp
  have sck: "fold (scoreCandidate example_catalog ''quick'' ?rDisplay ?keys) [''n1'', ''n2''] []
               = [?n1, ?n2]"
    by code_simp
  have f0: "filter (\<lambda>k. k \<notin> (\<Union>step \<in> set (take 0 (p_route ?planq)).
                      norm_str ` c_resource ` set (o_covered (hd (s_options step))))) ?keys = ?keys"
    by simp
  have sc0: "?scoredAt 0 = [?n1, ?n2]"
    unfolding f0 cands sck by (rule refl)
  have mq: "hd (p_route ?planq) \<in> set (p_route ?planq)" by (simp add: evq)
  have lq: "0 < length (p_route ?planq)" by (simp add: evq)
  note instq = planMinimizeStops_bound_and_missing [of example_catalog ?sel "''quick''", unfolded Let_def]
  note top = conjunct2 [OF conjunct2 [OF conjunct2 [OF conjunct2 [OF instq]]]]
  have 5: "sorted_wrt (\<lambda>a b. score b \<le> score a) (s_options (hd (p_route ?planq)))"
    using conjunct1 [OF bspec [OF conjunct1 [OF top] mq]] .
  note at0 = mp [OF spec [OF conjunct2 [OF top], of 0] lq]
  have 6: "s_options (p_route ?planq ! 0) = pickTopOptions (sortByScoreDesc (?scoredAt 0)) 3"
    using conjunct1 [OF at0] .
  have n1: "?n1 \<in> set (?scoredAt 0)" unfolding sc0 by simp
  have 7: "score ?n1 \<le> score (hd (s_options (p_route ?planq ! 0)))"
    using bspec [OF conjunct2 [OF conjunct2 [OF at0]] n1] .
  have 8: "nodeKey (hd (s_options (p_route ?planq ! 0))) = ''n2''"
    by (simp add: evq)
  show ?thesis
    using ev d 1 2 3 [unfolded cov] 4 [unfolded cov] evq sc 5 6 [unfolded sc0] 7 8 by (intro conjI)
qed

subsection \<open>Explicit records before the planet fallback\<close>

lemma coverStep_explicit:
  assumes "getExplicitScore c rKey nKey = Some x"
  shows "coverStep c runMode rDisplay nKey meta rKey (tot, cov) =
           (if 0 < computeEffScore x runMode (Some meta)
            then (tot + computeEffScore x runMode (Some meta),
                  cov @ [\<lparr>c_resource = displayName rDisplay rKey, c_via = ''explicit'',
                           c_score = computeEffScore x runMode (Some meta)\<rparr>])
            else (tot, cov))"
  using assms by (simp add: coverStep_def Let_def)

lemma coverStep_ignores_fallback:
  assumes "getExplicitScore c rKey nKey = Some x"
  shows "coverStep (c\<lparr>PLANET_DROPS := pd\<rparr>) runMode rDisplay nKey meta rKey acc
           = coverStep c runMode rDisplay nKey meta rKey acc"
proof -
  have "getExplicitScore (c\<lparr>PLANET_DROPS := pd\<rparr>) rKey nKey = Some x"
    using assms by (simp add: getExplicitScore_def)
  then show ?thesis using assms by (simp add: coverStep_def Let_def)
qed

lemma stopsLoop_covered_items:
  assumes keys: "\<forall>k \<in> set remaining. norm_str (displayName rDisplay k) = k"
    and init: "\<forall>step \<in> set route. \<forall>opt \<in> set (s_options step). \<forall>ci \<in> set (o_covered opt).
        (case getExplicitScore c (norm_str (c_resource ci)) (nodeKey opt) of
           Some x \<Rightarrow> c_via ci = ''explicit'' \<and> c_score ci = computeEffScore x runMode (Some (o_meta opt)) \<and> 0 < c_score ci
         | None \<Rightarrow> c_via ci = ''planet'' \<and> planetHasResourceFallback c (norm_str (c_resource ci)) (m_planetKey (o_meta opt)))"
  shows "\<forall>step \<in> set (snd (stopsLoop c runMode rDisplay candidates remaining route)).
      \<forall>opt \<in> set (s_options step). \<forall>ci \<in> set (o_covered opt).
        (case getExplicitScore c (norm_str (c_resource ci)) (nodeKey opt) of
           Some x \<Rightarrow> c_via ci = ''explicit'' \<and> c_score ci = computeEffScore x runMode (Some (o_meta opt)) \<and> 0 < c_score ci
         | None \<Rightarrow> c_via ci = ''planet'' \<and> planetHasResourceFallback c (norm_str (c_resource ci)) (m_planetKey (o_meta opt)))"
proof -
  let ?Q = "\<lambda>opt :: stop_option. \<forall>ci \<in> set (o_covered opt).
        (case getExplicitScore c (norm_str (c_resource ci)) (nodeKey opt) of
           Some x \<Rightarrow> c_via ci = ''explicit'' \<and> c_score ci = computeEffScore x runMode (Some (o_meta opt)) \<and> 0 < c_score ci
         | None \<Rightarrow> c_via ci = ''planet'' \<and> planetHasResourceFallback c (norm_str (c_resource ci)) (m_planetKey (o_meta opt)))"
  let ?I = "\<lambda>(rem :: string list) (route :: route_step list).
      (\<forall>k \<in> set rem. norm_str (displayName rDisplay k) = k)
      \<and> (\<forall>step \<in> set route. \<forall>opt \<in> set (s_options step). ?Q opt)"
  have "?I (fst (stopsLoop c runMode rDisplay candidates remaining route))
           (snd (stopsLoop c runMode rDisplay candidates remaining route))"
  proof (rule stopsLoop_invariant [where I = ?I])
    show "?I remaining route" using keys init by blast
  next
    fix remaining :: "string list" and route :: "route_step list"
      and best :: stop_option and rest :: "stop_option list"
    assume I: "?I remaining route"
      and top: "pickTopOptions (sortByScoreDesc (fold (scoreCandidate c runMode rDisplay remaining) candidates [])) 3 = best # rest"
    let ?rem' = "fold (\<lambda>ci rem. set_delete (norm_str (c_resource ci)) rem) (o_covered best) remaining"
    have "set ?rem' \<subseteq> set remaining"
      using fold_set_delete [of "\<lambda>ci. norm_str (c_resource ci)" "o_covered best" remaining] by auto
    then have k': "\<forall>k \<in> set ?rem'. norm_str (displayName rDisplay k) = k" using I by blast
    have "?Q opt" if "opt \<in> set (best # rest)" for opt
    proof
      fix ci
      assume ci: "ci \<in> set (o_covered opt)"
      have "o_covered opt = snd (fold (coverStep c runMode rDisplay (nodeKey opt) (o_meta opt)) remaining (0, []))"
        using top_options_scored [OF top that] by simp
      then obtain rKey where r: "rKey \<in> set remaining" "c_resource ci = displayName rDisplay rKey"
        and cs: "(case getExplicitScore c rKey (nodeKey opt) of
           Some x \<Rightarrow> c_via ci = ''explicit'' \<and> c_score ci = computeEffScore x runMode (Some (o_meta opt)) \<and> 0 < c_score ci
         | None \<Rightarrow> c_via ci = ''planet'' \<and> planetHasResourceFallback c rKey (m_planetKey (o_meta opt)))"
        using fold_coverStep_items [of ci c runMode rDisplay "nodeKey opt" "o_meta opt" remaining "(0, [])"] ci
        by auto
      have "norm_str (c_resource ci) = rKey" using r I by simp
      then have "rKey = norm_str (c_resource ci)" by simp
      then show "(case getExplicitScore c (norm_str (c_resource ci)) (nodeKey opt) of
           Some x \<Rightarrow> c_via ci = ''explicit'' \<and> c_score ci = computeEffScore x runMode (Some (o_meta opt)) \<and> 0 < c_score ci
         | None \<Rightarrow> c_via ci = ''planet'' \<and> planetHasResourceFallback c (norm_str (c_resource ci)) (m_planetKey (o_meta opt)))"
        using cs by (simp split: option.splits)
    qed
    then have "\<forall>step \<in> set (route @ [\<lparr>s_options = best # rest\<rparr>]). \<forall>opt \<in> set (s_options step). ?Q opt"
      using I by auto
    then show "?I ?rem' (route @ [\<lparr>s_options = best # rest\<rparr>])" using k' by blast
  qed
  then show ?thesis by blast
qed

lemma planMinimizeStops_covered_items:
  assumes "step \<in> set (p_route (planMinimizeStops c selectedResources runMode))"
    and "opt \<in> set (s_options step)" and "ci \<in> set (o_covered opt)"
  shows "(case getExplicitScore c (norm_str (c_resource ci)) (nodeKey opt) of
           Some x \<Rightarrow> c_via ci = ''explicit'' \<and> c_score ci = computeEffScore x runMode (Some (o_meta opt)) \<and> 0 < c_score ci
         | None \<Rightarrow> c_via ci = ''planet'' \<and> planetHasResourceFallback c (norm_str (c_resource ci)) (m_planetKey (o_meta opt)))"
proof -
  let ?keys = "new_Set (map norm_str selectedResources)"
  let ?rDisplay = "new_Map (map (\<lambda>r. (norm_str r, r)) selectedResources)"
  let ?candidateNodes = "fold (\<lambda>rKey cn. case map_of (EXPLICIT c) rKey of
                               None \<Rightarrow> cn
                             | Some m \<Rightarrow> fold set_add (map fst m) cn) ?keys []"
  let ?candidates = "filter (\<lambda>nKey. case map_of (NODE_META c) nKey of
                              None \<Rightarrow> False
                            | Some meta \<Rightarrow> nodeEligibleByRunMode meta runMode) ?candidateNodes"
  have route: "p_route (planMinimizeStops c selectedResources runMode)
      = snd (stopsLoop c runMode ?rDisplay ?candidates ?keys [])"
    by (simp add: planMinimizeStops_def Let_def)
  have nd: "\<forall>k \<in> set ?keys. norm_str (displayName ?rDisplay k) = k"
  proof
    fix k assume "k \<in> set ?keys"
    then have "norm_str k = k" by (auto simp: set_new_Set norm_str_idem)
    then show "norm_str (displayName ?rDisplay k) = k" by (rule norm_displayName)
  qed
  have "\<forall>step \<in> set (snd (stopsLoop c runMode ?rDisplay ?candidates ?keys [])).
      \<forall>opt \<in> set (s_options step). \<forall>ci \<in> set (o_covered opt).
        (case getExplicitScore c (norm_str (c_resource ci)) (nodeKey opt) of
           Some x \<Rightarrow> c_via ci = ''explicit'' \<and> c_score ci = computeEffScore x runMode (Some (o_meta opt)) \<and> 0 < c_score ci
         | None \<Rightarrow> c_via ci = ''planet'' \<and> planetHasResourceFallback c (norm_str (c_resource ci)) (m_planetKey (o_meta opt)))"
    using nd by (rule stopsLoop_covered_items) simp
  then show ?thesis using assms route by auto
qed

text \<open>
  Claim C3.  When the node \<open>nKey\<close> has an explicit record \<open>x\<close> for the remaining resource
  \<open>rKey\<close>, one round of the coverage loop adds the explicit effective score and an item
  tagged \<^verbatim>\<open>explicit\<close> if that score is above zero, and adds nothing otherwise; the outcome
  is the same whatever the planet fallback table holds.  In the plan returned, every
  covered item of every option whose resource and node have an explicit record is tagged
  \<^verbatim>\<open>explicit\<close> and carries that record's effective score, which is above zero.
\<close>

theorem explicit_record_takes_precedence:
  assumes "getExplicitScore c rKey nKey = Some x"
  shows "coverStep c runMode rDisplay nKey meta rKey (tot, cov) =
           (if 0 < computeEffScore x runMode (Some meta)
            then (tot + computeEffScore x runMode (Some meta),
                  cov @ [\<lparr>c_resource = displayName rDisplay rKey, c_via = ''explicit'',
                           c_score = computeEffScore x runMode (Some meta)\<rparr>])
            else (tot, cov))
    \<and> coverStep (c\<lparr>PLANET_DROPS := pd\<rparr>) runMode rDisplay nKey meta rKey (tot, cov)
         = coverStep c runMode rDisplay nKey meta rKey (tot, cov)
    \<and> (\<forall>step \<in> set (p_route (planMinimizeStops c selectedResources runMode)).
         \<forall>opt \<in> set (s_options step). \<forall>ci \<in> set (o_covered opt).
           nodeKey opt = nKey \<and> norm_str (c_resource ci) = rKey \<longrightarrow>
             c_via ci = ''explicit'' \<and> c_score ci = computeEffScore x runMode (Some (o_meta opt))
             \<and> 0 < c_score ci)"
proof -
  have 1: "coverStep c runMode rDisplay nKey meta rKey (tot, cov) =
           (if 0 < computeEffScore x runMode (Some meta)
            then (tot + computeEffScore x runMode (Some meta),
                  cov @ [\<lparr>c_resource = displayName rDisplay rKey, c_via = ''explicit'',
                           c_score = computeEffScore x runMode (Some meta)\<rparr>])
            else (tot, cov))"
    using assms by (rule coverStep_explicit)
  have 2: "coverStep (c\<lparr>PLANET_DROPS := pd\<rparr>) runMode rDisplay nKey meta rKey (tot, cov)
         = coverStep c runMode rDisplay nKey meta rKey (tot, cov)"
    using assms by (rule coverStep_ignores_fallback)
  have 3: "c_via ci = ''explicit'' \<and> c_score ci = computeEffScore x runMode (Some (o_meta opt)) \<and> 0 < c_score ci"
    if "step \<in> set (p_route (planMinimizeStops c selectedResources runMode))"
      "opt \<in> set (s_options step)" "ci \<in> set (o_covered opt)"
      "nodeKey opt = nKey" "norm_str (c_resource ci) = rKey" for step opt ci
    using planMinimizeStops_covered_items [OF that(1,2,3)] that(4,5) assms by simp
  show ?thesis using 1 2 3 by blast
qed

theorem explicit_record_takes_precedence_witness:
  "getExplicitScore example_catalog ''rubedo'' ''n1''
     = Some \<lparr>x_dropScore = 0, x_speedScore = 3, x_isEndless = True\<rparr>
   \<and> planetHasResourceFallback example_catalog ''rubedo'' (m_planetKey example_N1)
   \<and> coverStep example_catalog ''quick'' [] ''n1'' example_N1 ''rubedo'' (0, []) = (0, [])
   \<and> coverStep (example_catalog\<lparr>PLANET_DROPS := []\<rparr>) ''quick'' [] ''n1'' example_N1 ''rubedo'' (0, [])
       = coverStep example_catalog ''quick'' [] ''n1'' example_N1 ''rubedo'' (0, [])
   \<and> getExplicitScore example_catalog ''rubedo'' ''n2''
     = Some \<lparr>x_dropScore = 4, x_speedScore = 5, x_isEndless = False\<rparr>
   \<and> planMinimizeStops example_catalog [''Plastids'', ''Rubedo''] ''quick''
       = \<lparr>p_route = [\<lparr>s_options = [\<lparr>nodeKey = ''n2'', score = 42 / 5, o_meta = example_N2,
            o_covered = [\<lparr>c_resource = ''Plastids'', c_via = ''planet'', c_score = 14 / 5\<rparr>,
                         \<lparr>c_resource = ''Rubedo'', c_via = ''explicit'', c_score = 28 / 5\<rparr>]\<rparr>]\<rparr>],
          p_missing = []\<rparr>
   \<and> c_via (o_covered (hd (s_options (hd (p_route
         (planMinimizeStops example_catalog [''Plastids'', ''Rubedo''] ''quick''))))) ! 1) = ''explicit''
   \<and> c_score (o_covered (hd (s_options (hd (p_route
         (planMinimizeStops example_catalog [''Plastids'', ''Rubedo''] ''quick''))))) ! 1)
       = computeEffScore \<lparr>x_dropScore = 4, x_speedScore = 5, x_isEndless = False\<rparr> ''quick'' (Some example_N2)"
proof -
  let ?sel = "[''Plastids'', ''Rubedo'']"
  let ?plan = "planMinimizeStops example_catalog ?sel ''quick''"
  let ?x = "\<lparr>x_dropScore = 0, x_speedScore = 3, x_isEndless = True\<rparr>"
  let ?y = "\<lparr>x_dropScore = 4, x_speedScore = 5, x_isEndless = False\<rparr>"
  let ?step = "hd (p_route ?plan)"
  let ?opt = "hd (s_options ?step)"
  let ?ci = "o_covered ?opt ! 1"
  have h: "getExplicitScore example_catalog ''rubedo'' ''n1'' = Some ?x"
    by (simp add: getExplicitScore_def)
  have h2: "getExplicitScore example_catalog ''rubedo'' ''n2'' = Some ?y"
    by (simp add: getExplicitScore_def)
  have fb: "planetHasResourceFallback example_catalog ''rubedo'' (m_planetKey example_N1)"
    by (simp add: planetHasResourceFallback_def)
  have eff: "computeEffScore ?x ''quick'' (Some example_N1) = 0"
    by (simp add: computeEffScore_def)
  have ev: "?plan
       = \<lparr>p_route = [\<lparr>s_options = [\<lparr>nodeKey = ''n2'', score = 42 / 5, o_meta = example_N2,
            o_covered = [\<lparr>c_resource = ''Plastids'', c_via = ''planet'', c_score = 14 / 5\<rparr>,
                         \<lparr>c_resource = ''Rubedo'', c_via = ''explicit'', c_score = 28 / 5\<rparr>]\<rparr>]\<rparr>],
          p_missing = []\<rparr>"
    by code_simp
  note inst = explicit_record_takes_precedence
      [OF h, of "''quick''" "[]" example_N1 0 "[]" "[]" ?sel]
  note inst2 = explicit_record_takes_precedence
      [OF h2, of "''quick''" "[]" example_N2 0 "[]" "[]" ?sel]
  have 1: "coverStep example_catalog ''quick'' [] ''n1'' example_N1 ''rubedo'' (0, []) = (0, [])"
    using conjunct1 [OF inst] eff by simp
  have 2: "coverStep (example_catalog\<lparr>PLANET_DROPS := []\<rparr>) ''quick'' [] ''n1'' example_N1 ''rubedo'' (0, [])
       = coverStep example_catalog ''quick'' [] ''n1'' example_N1 ''rubedo'' (0, [])"
    using conjunct1 [OF conjunct2 [OF inst]] .
  have m1: "?step \<in> set (p_route ?plan)" by (simp add: ev)
  have m2: "?opt \<in> set (s_options ?step)" by (simp add: ev)
  have m3: "?ci \<in> set (o_covered ?opt)" by (simp add: ev)
  have k: "nodeKey ?opt = ''n2'' \<and> norm_str (c_resource ?ci) = ''rubedo''"
    by (simp add: ev string_eval)
  have om: "o_meta ?opt = example_N2" by (simp add: ev)
  have 3: "c_via ?ci = ''explicit'' \<and> c_score ?ci = computeEffScore ?y ''quick'' (Some (o_meta ?opt))
             \<and> 0 < c_score ?ci"
    using mp [OF bspec [OF bspec [OF bspec [OF conjunct2 [OF conjunct2 [OF inst2]] m1] m2] m3] k] .
  have 4: "c_via ?ci = ''explicit''" using 3 by (rule conjunct1)
  have 5: "c_score ?ci = computeEffScore ?y ''quick'' (Some example_N2)"
    using conjunct1 [OF conjunct2 [OF 3]] om by simp
  show ?thesis using h fb 1 2 h2 ev 4 5 by (intro conjI)
qed

section \<open>The planners only read the catalog\<close>

declare stopsLoop_st.simps [simp del]

lemma run_EXPLICIT_get: "run_state (EXPLICIT_get rKey) s = (map_of (EXPLICIT s) rKey, s)"
  by (simp add: EXPLICIT_get_def)

lemma run_NODE_META_get: "run_state (NODE_META_get nKey) s = (map_of (NODE_META s) nKey, s)"
  by (simp add: NODE_META_get_def)

lemma run_PLANET_DROPS_get: "run_state (PLANET_DROPS_get rKey) s = (map_of (PLANET_DROPS s) rKey, s)"
  by (simp add: PLANET_DROPS_get_def)

lemma run_fold_st:
  assumes "\<And>x acc. run_state (f x acc) s = (g x acc, s)"
  shows "run_state (fold_st f xs acc) s = (fold g xs acc, s)"
  by (induction xs arbitrary: acc) (simp_all add: assms)

lemma run_traverse_list:
  assumes "\<And>x. run_state (f x) s = (g x, s)"
  shows "run_state (State_Monad.traverse_list f xs) s = (map g xs, s)"
  by (induction xs) (simp_all add: assms)

lemma run_getExplicitScore_st:
  "run_state (getExplicitScore_st rKey nKey) s = (getExplicitScore s rKey nKey, s)"
  by (simp add: getExplicitScore_st_def getExplicitScore_def run_EXPLICIT_get)

lemma run_planetHasResourceFallback_st:
  "run_state (planetHasResourceFallback_st rKey planetKey) s = (planetHasResourceFallback s rKey planetKey, s)"
  by (simp add: planetHasResourceFallback_st_def planetHasResourceFallback_def run_PLANET_DROPS_get)

lemma run_scoreExplicitStep_st:
  "run_state (scoreExplicitStep_st runMode e scored) s = (scoreExplicitStep s runMode e scored, s)"
  by (simp add: scoreExplicitStep_st_def scoreExplicitStep_def run_NODE_META_get)

lemma run_efficiencyEntry_st:
  "run_state (efficiencyEntry_st runMode rName) s = (efficiencyEntry s runMode rName, s)"
proof -
  have t: "run_state (State_Monad.traverse_list
                        (\<lambda>opt. do { meta \<leftarrow> NODE_META_get (nodeKey opt);
                                    State_Monad.return \<lparr>nodeKey = nodeKey opt, score = score opt, e_meta = meta\<rparr> }) xs) s
     = (map (\<lambda>opt. \<lparr>nodeKey = nodeKey opt, score = score opt, e_meta = map_of (NODE_META s) (nodeKey opt)\<rparr>) xs, s)"
    for xs :: "scored list"
    by (rule run_traverse_list) (simp add: run_NODE_META_get)
  have f: "run_state (fold_st (scoreExplicitStep_st runMode) es []) s
      = (fold (scoreExplicitStep s runMode) es [], s)" for es
    by (rule run_fold_st) (rule run_scoreExplicitStep_st)
  show ?thesis
    by (simp add: efficiencyEntry_st_def efficiencyEntry_def run_EXPLICIT_get Let_def t f)
qed

lemma run_planMaximizeEfficiency_st:
  "run_state (planMaximizeEfficiency_st selectedResources runMode) s
     = (planMaximizeEfficiency s selectedResources runMode, s)"
  unfolding planMaximizeEfficiency_st_def planMaximizeEfficiency_def
  by (rule run_traverse_list) (rule run_efficiencyEntry_st)

lemma run_coverStep_st:
  "run_state (coverStep_st runMode rDisplay nKey meta rKey acc) s
     = (coverStep s runMode rDisplay nKey meta rKey acc, s)"
  by (cases acc)
    (simp add: coverStep_st_def coverStep_def run_getExplicitScore_st run_planetHasResourceFallback_st
      Let_def split: option.splits)

lemma run_scoreCandidate_st:
  "run_state (scoreCandidate_st runMode rDisplay remaining nKey scored) s
     = (scoreCandidate s runMode rDisplay remaining nKey scored, s)"
proof -
  have f: "run_state (fold_st (coverStep_st runMode rDisplay nKey meta) remaining (0, [])) s
      = (fold (coverStep s runMode rDisplay nKey meta) remaining (0, []), s)" for meta
    by (rule run_fold_st) (rule run_coverStep_st)
  show ?thesis
    by (simp add: scoreCandidate_st_def scoreCandidate_def run_NODE_META_get f Let_def split: option.splits)
qed

lemma run_stopsLoop_st:
  "run_state (stopsLoop_st runMode rDisplay candidates remaining route) s
     = (stopsLoop s runMode rDisplay candidates remaining route, s)"
proof (induction s runMode rDisplay candidates remaining route rule: stopsLoop.induct)
  case (1 c runMode rDisplay candidates remaining route)
  let ?scored = "fold (scoreCandidate c runMode rDisplay remaining) candidates []"
  let ?top = "pickTopOptions (sortByScoreDesc ?scored) 3"
  have f: "run_state (fold_st (scoreCandidate_st runMode rDisplay remaining) candidates []) c = (?scored, c)"
    by (rule run_fold_st) (rule run_scoreCandidate_st)
  show ?case
  proof (cases "remaining \<noteq> [] \<and> length route < maxStops")
    case False
    then show ?thesis
      by (subst stopsLoop_st.simps, subst stopsLoop_unfold) auto
  next
    case True
    show ?thesis
    proof (cases ?top)
      case Nil
      then show ?thesis using True f
        by (subst stopsLoop_st.simps, subst stopsLoop_unfold) simp
    next
      case (Cons best rest)
      have "run_state (stopsLoop_st runMode rDisplay candidates
               (fold (\<lambda>ci rem. set_delete (norm_str (c_resource ci)) rem) (o_covered best) remaining)
               (route @ [\<lparr>s_options = best # rest\<rparr>])) c
          = (stopsLoop c runMode rDisplay candidates
               (fold (\<lambda>ci rem. set_delete (norm_str (c_resource ci)) rem) (o_covered best) remaining)
               (route @ [\<lparr>s_options = best # rest\<rparr>]), c)"
        using "1.IH" [of _ ?top best rest] True Cons
        by (simp add: stop_option_copy)
      then show ?thesis using True Cons f
        by (subst stopsLoop_st.simps, subst stopsLoop_unfold) (simp add: stop_option_copy)
    qed
  qed
qed

lemma run_planMinimizeStops_st:
  "run_state (planMinimizeStops_st selectedResources runMode) s
     = (planMinimizeStops s selectedResources runMode, s)"
proof -
  let ?remaining = "new_Set (map norm_str selectedResources)"
  let ?candidateNodes = "fold (\<lambda>rKey cn. case map_of (EXPLICIT s) rKey of
                               None \<Rightarrow> cn
                             | Some m \<Rightarrow> fold set_add (map fst m) cn) ?remaining []"
  let ?P = "\<lambda>nKey. case map_of (NODE_META s) nKey of
                              None \<Rightarrow> False
                            | Some meta \<Rightarrow> nodeEligibleByRunMode meta runMode"
  have cn: "run_state (fold_st candidateNodesStep_st ?remaining []) s = (?candidateNodes, s)"
    by (rule run_fold_st) (simp add: candidateNodesStep_st_def run_EXPLICIT_get)
  have "run_state (fold_st (candidateFilterStep_st runMode) xs []) s
      = (fold (\<lambda>x kept. if ?P x then kept @ [x] else kept) xs [], s)" for xs
    by (rule run_fold_st) (simp add: candidateFilterStep_st_def run_NODE_META_get split: option.splits)
  then have cf: "run_state (fold_st (candidateFilterStep_st runMode) xs []) s = (filter ?P xs, s)" for xs
    by (simp add: fold_keep_filter)
  show ?thesis
    by (simp add: planMinimizeStops_st_def planMinimizeStops_def Let_def cn cf run_stopsLoop_st)
qed

text \<open>
  Claim C8.  Run from any catalog state \<open>c\<close>, either planner leaves the state \<open>c\<close> (so
  \<open>EXPLICIT\<close>, \<open>NODE_META\<close>, \<open>PLANET_DROPS\<close> and \<open>RESOURCES\<close> are unchanged) and returns a value
  that is a function of \<open>c\<close>, the requested resources and the run mode; two calls in a row
  with the same arguments return equal results and still leave \<open>c\<close>.
\<close>

theorem planners_read_only:
  "run_state (planMaximizeEfficiency_st selectedResources runMode) c
     = (planMaximizeEfficiency c selectedResources runMode, c)
   \<and> run_state (planMinimizeStops_st selectedResources runMode) c
     = (planMinimizeStops c selectedResources runMode, c)
   \<and> run_state (do { a \<leftarrow> planMaximizeEfficiency_st selectedResources runMode;
                     b \<leftarrow> planMaximizeEfficiency_st selectedResources runMode;
                     State_Monad.return (a = b) }) c = (True, c)
   \<and> run_state (do { a \<leftarrow> planMinimizeStops_st selectedResources runMode;
                     b \<leftarrow> planMinimizeStops_st selectedResources runMode;
                     State_Monad.return (a = b) }) c = (True, c)"
  by (simp add: run_planMaximizeEfficiency_st run_planMinimizeStops_st)

end
